theory Spec2Isabelle
  imports Main "HOL-Library.Word" "HOL-Library.AList"
begin

unbundle bit_operations_syntax

section \<open>Strings and bytes\<close>

text \<open>
  Go strings and byte slices are both sequences of bytes; a \<^typ>\<open>char\<close> is one byte.
  The nil slice and the empty slice are both \<^term>\<open>[] :: string\<close>.
\<close>

type_synonym bytes = string

text \<open>
  \<^verbatim>\<open>strings.Split(s, "/")\<close>: the pieces of \<open>s\<close> between the occurrences of a one-byte
  separator. A string without the separator gives the one-element list of itself.
\<close>

fun Split :: "string \<Rightarrow> char \<Rightarrow> string list" where
  "Split [] sep = [[]]"
| "Split (x # xs) sep =
     (if x = sep then [] # Split xs sep
      else (case Split xs sep of [] \<Rightarrow> [[x]] | y # ys \<Rightarrow> (x # y) # ys))"

text \<open>\<^verbatim>\<open>strings.HasPrefix(s, p)\<close>.\<close>

definition HasPrefix :: "string \<Rightarrow> string \<Rightarrow> bool" where
  "HasPrefix s p = (take (length p) s = p)"

text \<open>
  \<^verbatim>\<open>strings.SplitN(s, sep, 2)\<close> for a non-empty separator: \<open>None\<close> stands for the
  one-element result (no occurrence of \<open>sep\<close>), \<open>Some (a, b)\<close> for the two-element
  result \<open>[a, b]\<close> cut at the first occurrence.
\<close>

fun SplitN2 :: "string \<Rightarrow> string \<Rightarrow> (string \<times> string) option" where
  "SplitN2 [] sep = None"
| "SplitN2 (x # xs) sep =
     (if HasPrefix (x # xs) sep then Some ([], drop (length sep) (x # xs))
      else (case SplitN2 xs sep of None \<Rightarrow> None | Some (a, b) \<Rightarrow> Some (x # a, b)))"

section \<open>The 64-bit hash and its hexadecimal rendering\<close>

text \<open>
  \<^verbatim>\<open>queryKey\<close> hashes the query with \<^verbatim>\<open>xxhash.New()\<close>, \<^verbatim>\<open>Write\<close> and \<^verbatim>\<open>Sum64\<close> of
  \<^verbatim>\<open>github.com/cespare/xxhash/v2\<close>, which compute XXH64 with seed 0 over the bytes
  written. The library is not part of the repository; the functions below follow the
  published XXH64 algorithm on 64-bit words, where \<open>+\<close> and \<open>*\<close> wrap around.
\<close>

type_synonym u64 = "64 word"

definition prime1 :: u64 where "prime1 = 11400714785074694791"
definition prime2 :: u64 where "prime2 = 14029467366897019727"
definition prime3 :: u64 where "prime3 = 1609587929392839161"
definition prime4 :: u64 where "prime4 = 9650029242287828579"
definition prime5 :: u64 where "prime5 = 2870177450012600261"

definition rol :: "u64 \<Rightarrow> nat \<Rightarrow> u64" where
  "rol x r = push_bit r x OR drop_bit (64 - r) x"

text \<open>Little-endian reading of a run of bytes.\<close>

fun le_bytes :: "bytes \<Rightarrow> u64" where
  "le_bytes [] = 0"
| "le_bytes (c # cs) = of_nat (of_char c) + 256 * le_bytes cs"

definition round64 :: "u64 \<Rightarrow> u64 \<Rightarrow> u64" where
  "round64 acc input = rol (acc + input * prime2) 31 * prime1"

definition mergeRound :: "u64 \<Rightarrow> u64 \<Rightarrow> u64" where
  "mergeRound acc val = (acc XOR round64 0 val) * prime1 + prime4"

text \<open>
  The end of the input, shorter than 32 bytes: whole 8-byte words first, then one 4-byte
  word if there is one, then single bytes; the result is mixed by \<open>avalanche\<close>.
\<close>

definition avalanche :: "u64 \<Rightarrow> u64" where
  "avalanche h0 =
     (let h1 = (h0 XOR drop_bit 33 h0) * prime2;
          h2 = (h1 XOR drop_bit 29 h1) * prime3
      in h2 XOR drop_bit 32 h2)"

fun tail1 :: "u64 \<Rightarrow> bytes \<Rightarrow> u64" where
  "tail1 h [] = avalanche h"
| "tail1 h (c # cs) = tail1 (rol (h XOR of_nat (of_char c) * prime5) 11 * prime1) cs"

definition tail4 :: "u64 \<Rightarrow> bytes \<Rightarrow> u64" where
  "tail4 h b =
     (if length b < 4 then tail1 h b
      else tail1 (rol (h XOR le_bytes (take 4 b) * prime1) 23 * prime2 + prime3) (drop 4 b))"

function tail8 :: "u64 \<Rightarrow> bytes \<Rightarrow> u64" where
  "tail8 h b =
     (if length b < 8 then tail4 h b
      else tail8 (rol (h XOR round64 0 (le_bytes (take 8 b))) 27 * prime1 + prime4) (drop 8 b))"
  by pat_completeness auto
termination
  by (relation "measure (\<lambda>(h, b). length b)") auto

text \<open>
  The four-lane loop over the 32-byte stripes of an input of \<open>n\<close> bytes; when fewer
  than 32 bytes are left the lanes are merged, the length is added and the tail is
  hashed.
\<close>

function stripes :: "u64 \<Rightarrow> u64 \<Rightarrow> u64 \<Rightarrow> u64 \<Rightarrow> nat \<Rightarrow> bytes \<Rightarrow> u64" where
  "stripes v1 v2 v3 v4 n b =
     (if length b < 32 then
        tail8 (mergeRound (mergeRound (mergeRound (mergeRound
                 (rol v1 1 + rol v2 7 + rol v3 12 + rol v4 18) v1) v2) v3) v4 + of_nat n) b
      else stripes
        (round64 v1 (le_bytes (take 8 b)))
        (round64 v2 (le_bytes (take 8 (drop 8 b))))
        (round64 v3 (le_bytes (take 8 (drop 16 b))))
        (round64 v4 (le_bytes (take 8 (drop 24 b))))
        n (drop 32 b))"
  by pat_completeness auto
termination
  by (relation "measure (\<lambda>(v1, v2, v3, v4, n, b). length b)") auto

definition Sum64 :: "bytes \<Rightarrow> u64" where
  "Sum64 b =
     (if 32 \<le> length b then stripes (prime1 + prime2) prime2 0 (0 - prime1) (length b) b
      else tail8 (prime5 + of_nat (length b)) b)"

text \<open>\<^verbatim>\<open>strconv.FormatUint(n, 16)\<close>: lower-case hexadecimal, no leading zeros, \<open>0\<close> for zero.\<close>

definition hex_digit :: "nat \<Rightarrow> char" where
  "hex_digit d = ''0123456789abcdef'' ! (d mod 16)"

fun FormatUint16 :: "nat \<Rightarrow> string" where
  "FormatUint16 n =
     (if n < 16 then [hex_digit n] else FormatUint16 (n div 16) @ [hex_digit (n mod 16)])"

section \<open>Cache keys\<close>

text \<open>
  \<^verbatim>\<open>fmt.Sprintf(`{"id": {"_eq": %s}}`, id)\<close>: the format string of \<^verbatim>\<open>queryKey\<close> with the
  id spliced in as it is.
\<close>

definition id_query :: "string \<Rightarrow> string" where
  \<open>id_query i = ''{"id": {"_eq": '' @ i @ ''}}''\<close>

text \<open>The collection and the query that \<^verbatim>\<open>queryKey\<close> hashes, after its rewriting step.\<close>

definition effective :: "string \<Rightarrow> string \<Rightarrow> string \<times> string" where
  "effective c q = (case Split c CHR ''/'' of [c0, i] \<Rightarrow> (c0, id_query i) | _ \<Rightarrow> (c, q))"

definition queryKey :: "string \<Rightarrow> string \<Rightarrow> string" where
  "queryKey c q = (case effective c q of (c', q') \<Rightarrow> c' @ '':'' @ FormatUint16 (unat (Sum64 q')))"

section \<open>Errors, streams and locks\<close>

text \<open>The error values the code creates or receives from its libraries.\<close>

datatype error =
    NoopMiss              \<comment> \<open>\<^verbatim>\<open>errors.New("get item from noop cache")\<close>\<close>
  | RedisNil              \<comment> \<open>\<^verbatim>\<open>redis.Nil\<close>: the key is absent\<close>
  | RedisFailure          \<comment> \<open>timeout or connection failure of a store command\<close>
  | ReadFailure           \<comment> \<open>an \<^verbatim>\<open>io.Reader\<close> failed before the end of the stream\<close>
  | AlreadyExists         \<comment> \<open>\<^verbatim>\<open>errors.New("collection already exists")\<close>\<close>
  | InvalidMethod         \<comment> \<open>\<^verbatim>\<open>errors.New("invalid method")\<close>\<close>
  | UrlRequired           \<comment> \<open>\<^verbatim>\<open>errors.New("url is required")\<close>\<close>
  | InvalidUrl            \<comment> \<open>\<^verbatim>\<open>errors.New("invalid url")\<close>\<close>
  | TransportFailure      \<comment> \<open>an error of \<^verbatim>\<open>http.Client.Do\<close>\<close>

text \<open>
  An \<^verbatim>\<open>io.Reader\<close> is a single-read stream: the bytes it yields, then the end of the
  stream or an error. \<^verbatim>\<open>io.ReadAll\<close> returns the bytes read so far together with the
  error, if any.
\<close>

datatype reader = Reader bytes "error option"

fun ReadAll :: "reader \<Rightarrow> bytes \<times> error option" where
  "ReadAll (Reader b e) = (b, e)"

text \<open>\<^verbatim>\<open>bytes.NewReader(b)\<close> wrapped by \<^verbatim>\<open>io.NopCloser\<close>: yields \<open>b\<close>, then ends.\<close>

definition NewReader :: "bytes \<Rightarrow> reader" where
  "NewReader b = Reader b None"

text \<open>
  A \<^verbatim>\<open>sync.RWMutex\<close> as state: whether the exclusive lock is held, how many read locks
  are, and whether a call of \<^verbatim>\<open>Lock\<close> is waiting for it. The model runs one operation at
  a time to its end, so a lock that is held when an operation starts is one that an
  earlier operation returned without releasing; no operation of the code releases a lock
  it did not take itself, so acquiring it then never succeeds. \<open>None\<close> from \<open>Lock\<close> or
  \<open>RLock\<close> is that case. A call of \<^verbatim>\<open>Lock\<close> that waits stays waiting, and
  \<open>Lock_waits\<close> is the lock as it leaves it: from then on the \<^verbatim>\<open>RWMutex\<close> lets no new
  reader in, so \<^verbatim>\<open>RLock\<close> waits behind a waiting writer as it does behind a writer that
  holds the lock.
\<close>

record rwlock =
  writer :: bool
  readers :: nat
  waiting :: bool

definition free :: rwlock where
  "free = \<lparr>writer = False, readers = 0, waiting = False\<rparr>"

definition Lock :: "rwlock \<Rightarrow> rwlock option" where
  "Lock l = (if writer l \<or> 0 < readers l then None else Some (l\<lparr>writer := True\<rparr>))"

definition Lock_waits :: "rwlock \<Rightarrow> rwlock" where
  "Lock_waits l = l\<lparr>waiting := True\<rparr>"

definition Unlock :: "rwlock \<Rightarrow> rwlock" where
  "Unlock l = l\<lparr>writer := False\<rparr>"

definition RLock :: "rwlock \<Rightarrow> rwlock option" where
  "RLock l =
     (if writer l \<or> waiting l then None else Some (l\<lparr>readers := Suc (readers l)\<rparr>))"

definition RUnlock :: "rwlock \<Rightarrow> rwlock" where
  "RUnlock l = l\<lparr>readers := readers l - 1\<rparr>"

text \<open>
  What a call does: it returns a value, or it waits for ever on a lock. The state a call
  leaves behind is given in both cases.
\<close>

datatype 'a outcome = Returns 'a | Blocks

section \<open>The key/value store\<close>

text \<open>
  \<^verbatim>\<open>redisCacheService\<close> sends \<^verbatim>\<open>GET\<close>, \<^verbatim>\<open>SET\<close> and \<^verbatim>\<open>DEL\<close> for the key
  \<^verbatim>\<open>keyspace + ":" + key\<close>. The server is a map from keys to values; \<^verbatim>\<open>GET\<close> of an
  absent key is \<^verbatim>\<open>redis.Nil\<close>, and \<^verbatim>\<open>DEL\<close> removes the key it is given, taken
  literally (Redis matches patterns in \<^verbatim>\<open>KEYS\<close> and \<^verbatim>\<open>SCAN\<close> only). While \<open>up\<close> is
  false every command fails, as on a timeout. Expiry is outside the model: no entry
  expires between two steps.
\<close>

record redisCacheService =
  keyspace :: string
  up :: bool
  kv :: "string \<rightharpoonup> bytes"

definition redis_Get :: "redisCacheService \<Rightarrow> string \<Rightarrow> error + bytes" where
  "redis_Get r key =
     (if \<not> up r then Inl RedisFailure
      else (case kv r (keyspace r @ '':'' @ key) of None \<Rightarrow> Inl RedisNil | Some v \<Rightarrow> Inr v))"

definition redis_Set :: "redisCacheService \<Rightarrow> string \<Rightarrow> bytes \<Rightarrow> error option \<times> redisCacheService" where
  "redis_Set r key v =
     (if \<not> up r then (Some RedisFailure, r)
      else (None, r\<lparr>kv := (kv r)(keyspace r @ '':'' @ key \<mapsto> v)\<rparr>))"

definition redis_Del :: "redisCacheService \<Rightarrow> string \<Rightarrow> error option \<times> redisCacheService" where
  "redis_Del r key =
     (if \<not> up r then (Some RedisFailure, r)
      else (None, r\<lparr>kv := (kv r)(keyspace r @ '':'' @ key := None)\<rparr>))"

section \<open>Change events and the observer registry\<close>

record WebhookEvent =
  Event :: string
  Payload :: bytes
  Key :: string
  Collection :: string

text \<open>
  A registered \<^verbatim>\<open>func(WebhookEvent)\<close>. \<open>PruneCollection c\<close> is the closure that
  \<^verbatim>\<open>refreshableQueryCache.Set\<close> registers, which calls \<^verbatim>\<open>q.pruneCollection(c)\<close>.
  \<open>UserCallback n\<close> is any other callback, told apart by \<open>n\<close>; calling it is recorded
  in \<open>fired\<close>.
\<close>

datatype callback = PruneCollection string | UserCallback nat

record WebhookEventServer =
  wes_mu :: rwlock
  observes :: "string \<rightharpoonup> callback"
  fired :: "(nat \<times> WebhookEvent) list"

definition NewWebhookEventServer :: WebhookEventServer where
  "NewWebhookEventServer = \<lparr>wes_mu = free, observes = Map.empty, fired = []\<rparr>"

text \<open>
  \<^verbatim>\<open>AddObserver\<close> takes the exclusive lock and releases it on every return
  (\<^verbatim>\<open>defer wes.mu.Unlock()\<close>). The value returned is the \<^verbatim>\<open>error\<close>, \<open>None\<close> for nil.
\<close>

definition AddObserver ::
  "WebhookEventServer \<Rightarrow> string \<Rightarrow> callback \<Rightarrow> error option outcome \<times> WebhookEventServer" where
  "AddObserver wes collection f =
     (case Lock (wes_mu wes) of
        None \<Rightarrow> (Blocks, wes\<lparr>wes_mu := Lock_waits (wes_mu wes)\<rparr>)
      | Some l \<Rightarrow>
          (case observes wes collection of
             Some g \<Rightarrow> (Returns (Some AlreadyExists), wes\<lparr>wes_mu := Unlock l\<rparr>)
           | None \<Rightarrow>
               (Returns None,
                wes\<lparr>wes_mu := Unlock l, observes := (observes wes)(collection \<mapsto> f)\<rparr>)))"

text \<open>\<^verbatim>\<open>RemoveObserver\<close> takes a read lock, deletes the entry and returns.\<close>

definition RemoveObserver :: "WebhookEventServer \<Rightarrow> string \<Rightarrow> unit outcome \<times> WebhookEventServer" where
  "RemoveObserver wes collection =
     (case RLock (wes_mu wes) of
        None \<Rightarrow> (Blocks, wes)
      | Some l \<Rightarrow> (Returns (), wes\<lparr>wes_mu := l, observes := (observes wes)(collection := None)\<rparr>))"

text \<open>
  The flush step of \<^verbatim>\<open>serve\<close> builds \<^verbatim>\<open>uniqueEvents\<close>, a Go map from
  \<^verbatim>\<open>e.Collection+":"+e.Event+":"+e.Key\<close> to the event, by assigning the events of the
  buffer in order. Go ranges over a map in an unspecified order; the association list
  below keeps the keys in the order of their first assignment, and what is proved about
  it does not depend on the order.
\<close>

definition composite :: "WebhookEvent \<Rightarrow> string" where
  "composite e = Collection e @ '':'' @ Event e @ '':'' @ Key e"

text \<open>The three components that the joined key is made of, as a triple.\<close>

definition triple :: "WebhookEvent \<Rightarrow> string \<times> string \<times> string" where
  "triple e = (Collection e, Event e, Key e)"

definition uniqueEvents :: "WebhookEvent list \<Rightarrow> (string \<times> WebhookEvent) list" where
  "uniqueEvents ex = fold (\<lambda>e m. AList.update (composite e) e m) ex []"

text \<open>The events handed to the observers in one flush.\<close>

definition dispatched :: "WebhookEvent list \<Rightarrow> WebhookEvent list" where
  "dispatched ex = map snd (uniqueEvents ex)"

section \<open>The query cache\<close>

text \<open>
  \<^verbatim>\<open>refreshableQueryCache\<close>. The field \<open>wes\<close> is a pointer in the code; here the cache
  holds the one server there is, and the closures registered in it act on this cache.
\<close>

record refreshableQueryCache =
  mu :: rwlock
  store :: redisCacheService
  observedCollections :: "string set"
  wes :: WebhookEventServer

definition NewRefreshableQueryCache ::
  "redisCacheService \<Rightarrow> WebhookEventServer \<Rightarrow> refreshableQueryCache" where
  "NewRefreshableQueryCache st w =
     \<lparr>mu = free, store = st, observedCollections = {}, wes = w\<rparr>"

definition refreshable_Get :: "refreshableQueryCache \<Rightarrow> string \<Rightarrow> string \<Rightarrow> error + bytes" where
  "refreshable_Get q collection rawQuery = redis_Get (store q) (queryKey collection rawQuery)"

text \<open>
  \<^verbatim>\<open>Set\<close> returns the Go pair \<^verbatim>\<open>([]byte, error)\<close>. On the path where the collection is
  already in \<^verbatim>\<open>observedCollections\<close> the code returns right after \<^verbatim>\<open>q.mu.Lock()\<close>.
\<close>

definition refreshable_Set ::
  "refreshableQueryCache \<Rightarrow> string \<Rightarrow> string \<Rightarrow> reader
     \<Rightarrow> (bytes \<times> error option) outcome \<times> refreshableQueryCache" where
  "refreshable_Set q collection rawQuery data =
     (case ReadAll data of
        (b, Some e) \<Rightarrow> (Returns ([], Some e), q)
      | (b, None) \<Rightarrow>
          (case redis_Set (store q) (queryKey collection rawQuery) b of
             (Some e, st) \<Rightarrow> (Returns ([], Some e), q\<lparr>store := st\<rparr>)
           | (None, st) \<Rightarrow>
               (case Lock (mu q) of
                  None \<Rightarrow> (Blocks, q\<lparr>store := st, mu := Lock_waits (mu q)\<rparr>)
                | Some l \<Rightarrow>
                    if collection \<in> observedCollections q
                    then (Returns (b, None), q\<lparr>store := st, mu := l\<rparr>)
                    else
                      (case AddObserver (wes q) collection (PruneCollection collection) of
                         (Blocks, w) \<Rightarrow>
                           (Blocks,
                            q\<lparr>store := st, mu := Unlock l,
                              observedCollections := insert collection (observedCollections q),
                              wes := w\<rparr>)
                       | (Returns err, w) \<Rightarrow>
                           (Returns (b, None),
                            q\<lparr>store := st, mu := Unlock l,
                              observedCollections := insert collection (observedCollections q),
                              wes := w\<rparr>)))))"

text \<open>\<^verbatim>\<open>pruneCollection\<close> releases the lock on return (\<^verbatim>\<open>defer q.mu.Unlock()\<close>).\<close>

definition pruneCollection ::
  "refreshableQueryCache \<Rightarrow> string \<Rightarrow> error option outcome \<times> refreshableQueryCache" where
  "pruneCollection q c =
     (case Lock (mu q) of
        None \<Rightarrow> (Blocks, q\<lparr>mu := Lock_waits (mu q)\<rparr>)
      | Some l \<Rightarrow>
          (case redis_Del (store q) (c @ '':'' @ ''*'') of
             (err, st) \<Rightarrow>
               (Returns err,
                q\<lparr>mu := Unlock l, observedCollections := observedCollections q - {c},
                  store := st\<rparr>)))"

text \<open>\<^verbatim>\<open>noopCacheService\<close>: \<^verbatim>\<open>Get\<close> always fails, \<^verbatim>\<open>Set\<close> is \<^verbatim>\<open>io.ReadAll\<close>.\<close>

definition noop_Get :: "string \<Rightarrow> string \<Rightarrow> error + bytes" where
  "noop_Get collection rawQuery = Inl NoopMiss"

definition noop_Set :: "string \<Rightarrow> string \<Rightarrow> reader \<Rightarrow> bytes \<times> error option" where
  "noop_Set collection rawQuery data = ReadAll data"

section \<open>Dispatch of a flushed buffer\<close>

text \<open>Calling a registered callback. The closure of \<^verbatim>\<open>Set\<close> drops the error of
  \<^verbatim>\<open>pruneCollection\<close>.\<close>

fun invoke ::
  "callback \<Rightarrow> WebhookEvent \<Rightarrow> refreshableQueryCache \<Rightarrow> unit outcome \<times> refreshableQueryCache" where
  "invoke (PruneCollection c) e q =
     (case pruneCollection q c of (Blocks, q') \<Rightarrow> (Blocks, q') | (Returns err, q') \<Rightarrow> (Returns (), q'))"
| "invoke (UserCallback n) e q =
     (Returns (), q\<lparr>wes := (wes q)\<lparr>fired := fired (wes q) @ [(n, e)]\<rparr>\<rparr>)"

definition invoke_if_registered ::
  "string \<Rightarrow> WebhookEvent \<Rightarrow> refreshableQueryCache \<Rightarrow> unit outcome \<times> refreshableQueryCache" where
  "invoke_if_registered k e q =
     (case observes (wes q) k of None \<Rightarrow> (Returns (), q) | Some f \<Rightarrow> invoke f e q)"

text \<open>The body of the loop over \<^verbatim>\<open>uniqueEvents\<close>: the observer of the event's collection,
  then the observer of \<^verbatim>\<open>"*"\<close>.\<close>

definition notify :: "WebhookEvent \<Rightarrow> refreshableQueryCache \<Rightarrow> unit outcome \<times> refreshableQueryCache" where
  "notify e q =
     (case invoke_if_registered (Collection e) e q of
        (Blocks, q') \<Rightarrow> (Blocks, q')
      | (Returns u, q') \<Rightarrow> invoke_if_registered ''*'' e q')"

fun notify_all :: "WebhookEvent list \<Rightarrow> refreshableQueryCache \<Rightarrow> unit outcome \<times> refreshableQueryCache" where
  "notify_all [] q = (Returns (), q)"
| "notify_all (e # es) q =
     (case notify e q of (Blocks, q') \<Rightarrow> (Blocks, q') | (Returns u, q') \<Rightarrow> notify_all es q')"

text \<open>One received buffer: deduplicate, take the read lock, call the observers, release.\<close>

definition flush :: "WebhookEvent list \<Rightarrow> refreshableQueryCache \<Rightarrow> unit outcome \<times> refreshableQueryCache" where
  "flush ex q =
     (case RLock (wes_mu (wes q)) of
        None \<Rightarrow> (Blocks, q)
      | Some l \<Rightarrow>
          (case notify_all (dispatched ex) (q\<lparr>wes := (wes q)\<lparr>wes_mu := l\<rparr>\<rparr>) of
             (Blocks, q') \<Rightarrow> (Blocks, q')
           | (Returns u, q') \<Rightarrow>
               (Returns (), q'\<lparr>wes := (wes q')\<lparr>wes_mu := RUnlock (wes_mu (wes q'))\<rparr>\<rparr>)))"

section \<open>The ingestion endpoint\<close>

text \<open>
  An \<^verbatim>\<open>http.Request\<close> as far as the code reads and writes it. A nil \<^verbatim>\<open>Header\<close> and an
  empty one are the same map; \<^verbatim>\<open>URL\<close> is \<open>None\<close> when nil.
\<close>

record URL =
  Scheme :: string
  Host :: string
  Path :: string
  RawQuery :: string

record Request =
  Method :: string
  url :: "URL option"
  Header :: "string \<rightharpoonup> string list"
  ReqHost :: string
  RequestURI :: string
  Body :: reader

text \<open>\<^verbatim>\<open>Header.Get\<close>: the first value of the key, the empty string when there is none.\<close>

definition Header_Get :: "(string \<rightharpoonup> string list) \<Rightarrow> string \<Rightarrow> string" where
  "Header_Get h k = (case h k of Some (v # vs) \<Rightarrow> v | _ \<Rightarrow> [])"

text \<open>What a handler wrote to its \<^verbatim>\<open>http.ResponseWriter\<close>.\<close>

record written =
  status :: nat
  body :: bytes

text \<open>\<^verbatim>\<open>http.Error(w, msg, code)\<close> writes the status and the message followed by a newline.\<close>

definition http_Error :: "string \<Rightarrow> nat \<Rightarrow> written" where
  "http_Error msg code = \<lparr>status = code, body = msg @ [CHR 0x0A]\<rparr>"

text \<open>
  The two channels of \<^verbatim>\<open>serve\<close> and the goroutines between them.
  \<^verbatim>\<open>makeTimedBufferTransferChan\<close> starts the pump: it receives from \<^verbatim>\<open>inChan\<close> (capacity
  4) into \<^verbatim>\<open>buf\<close> and, on a tick with \<^verbatim>\<open>buf\<close> not empty, sends \<^verbatim>\<open>buf\<close> on \<^verbatim>\<open>outChan\<close>
  (capacity 4). The goroutine of \<^verbatim>\<open>serve\<close>, the dispatcher, receives a buffer from
  \<^verbatim>\<open>outChan\<close> and flushes it. Between two operations each goroutine either waits in its
  \<^verbatim>\<open>select\<close>, having taken what its channel held, or is stuck for ever: the dispatcher in
  a callback that blocks, the pump in its send on a full \<^verbatim>\<open>outChan\<close> that nobody reads.
\<close>

record pipeline =
  inChan :: "WebhookEvent list"
  buf :: "WebhookEvent list"
  pump_stuck :: bool
  outChan :: "WebhookEvent list list"
  dispatcher_stuck :: bool

definition NewPipeline :: pipeline where
  "NewPipeline =
     \<lparr>inChan = [], buf = [], pump_stuck = False, outChan = [], dispatcher_stuck = False\<rparr>"

text \<open>
  \<^verbatim>\<open>fluxInput <- we\<close>. A pump that waits in its \<^verbatim>\<open>select\<close> receives the event at once.
  Behind a stuck pump the event is buffered while the channel has room, and with four
  events buffered the send waits for ever: \<open>None\<close>.
\<close>

definition fluxInput_send :: "pipeline \<Rightarrow> WebhookEvent \<Rightarrow> pipeline option" where
  "fluxInput_send p we =
     (if pump_stuck p then
        (if length (inChan p) < 4 then Some (p\<lparr>inChan := inChan p @ [we]\<rparr>) else None)
      else Some (p\<lparr>buf := buf p @ inChan p @ [we], inChan := []\<rparr>))"

text \<open>
  The handler registered by \<^verbatim>\<open>serve\<close>. \<open>Decode\<close> stands for
  \<^verbatim>\<open>json.NewDecoder(r.Body).Decode\<close> of the standard library: the decoded event, or the
  text of the error. The event is sent on \<^verbatim>\<open>fluxInput\<close> before the status 200 is
  written, so a send that waits for ever leaves the request without an answer.
\<close>

definition handler ::
  "(reader \<Rightarrow> string + WebhookEvent) \<Rightarrow> pipeline \<Rightarrow> Request \<Rightarrow> written outcome \<times> pipeline" where
  "handler Decode p r =
     (if Method r \<noteq> ''POST'' then (Returns (http_Error ''method not allowed'' 405), p)
      else if Header_Get (Header r) ''Content-Type'' \<noteq> ''application/json''
      then (Returns (http_Error ''content type must be application/json'' 400), p)
      else (case Decode (Body r) of
              Inl err \<Rightarrow> (Returns (http_Error err 400), p)
            | Inr we \<Rightarrow>
                (case fluxInput_send p we of
                   None \<Rightarrow> (Blocks, p)
                 | Some p' \<Rightarrow> (Returns \<lparr>status = 200, body = []\<rparr>, p'))))"

text \<open>
  The tick branch of the pump, \<^verbatim>\<open>case <-time.Tick(duration)\<close>: with \<^verbatim>\<open>buf\<close> not empty it
  sends \<^verbatim>\<open>buf\<close> on \<^verbatim>\<open>outChan\<close> and starts a new buffer. A dispatcher that waits in its
  \<^verbatim>\<open>select\<close> receives the buffer at once and flushes it; if a callback blocks, the
  dispatcher is stuck from then on. Behind a stuck dispatcher the buffer stays in
  \<^verbatim>\<open>outChan\<close> while there is room, and with four buffers there the pump is stuck in its
  send.
\<close>

definition tick :: "pipeline \<Rightarrow> refreshableQueryCache \<Rightarrow> pipeline \<times> refreshableQueryCache" where
  "tick p q =
     (if pump_stuck p \<or> buf p = [] then (p, q)
      else if dispatcher_stuck p then
        (if length (outChan p) < 4 then (p\<lparr>outChan := outChan p @ [buf p], buf := []\<rparr>, q)
         else (p\<lparr>pump_stuck := True\<rparr>, q))
      else
        (case flush (buf p) q of
           (Returns u, q') \<Rightarrow> (p\<lparr>buf := []\<rparr>, q')
         | (Blocks, q') \<Rightarrow> (p\<lparr>buf := [], dispatcher_stuck := True\<rparr>, q')))"

section \<open>The request path\<close>

record Response =
  StatusCode :: nat
  RespHeader :: "string \<rightharpoonup> string list"
  RespBody :: reader

text \<open>The two implementations of the \<^verbatim>\<open>QueryCache\<close> interface.\<close>

datatype QueryCache = NoopQueryCache | RefreshableQueryCache

text \<open>
  \<^verbatim>\<open>DirectusClient\<close>. \<open>Do\<close> is \<^verbatim>\<open>d.client.Do\<close>, the transport to the origin: the
  response to the request it is given, or an error.
\<close>

record DirectusClient =
  baseURL :: URL
  token :: string
  cache :: QueryCache
  Do :: "Request \<Rightarrow> error + Response"

definition cache_Get :: "QueryCache \<Rightarrow> refreshableQueryCache \<Rightarrow> string \<Rightarrow> string \<Rightarrow> error + bytes" where
  "cache_Get c q collection rawQuery =
     (case c of
        NoopQueryCache \<Rightarrow> noop_Get collection rawQuery
      | RefreshableQueryCache \<Rightarrow> refreshable_Get q collection rawQuery)"

definition cache_Set ::
  "QueryCache \<Rightarrow> refreshableQueryCache \<Rightarrow> string \<Rightarrow> string \<Rightarrow> reader
     \<Rightarrow> (bytes \<times> error option) outcome \<times> refreshableQueryCache" where
  "cache_Set c q collection rawQuery data =
     (case c of
        NoopQueryCache \<Rightarrow> (Returns (noop_Set collection rawQuery data), q)
      | RefreshableQueryCache \<Rightarrow> refreshable_Set q collection rawQuery data)"

text \<open>The request as \<^verbatim>\<open>Call\<close> has rewritten it before it looks at the path.\<close>

definition prepare :: "DirectusClient \<Rightarrow> Request \<Rightarrow> URL \<Rightarrow> Request" where
  "prepare d r u =
     r\<lparr>Header := (Header r)(''Authorization'' \<mapsto> [''Bearer '' @ token d],
                             ''Content-Type'' \<mapsto> [''application/json'']),
       RequestURI := [],
       url := Some (u\<lparr>Scheme := Scheme (baseURL d), Host := Host (baseURL d),
                      RawQuery := (if RawQuery u = [] then ''limit=1000'' else RawQuery u)\<rparr>),
       ReqHost := Host (baseURL d)\<rparr>"

definition effectiveQuery :: "URL \<Rightarrow> string" where
  "effectiveQuery u = (if RawQuery u = [] then ''limit=1000'' else RawQuery u)"

definition Call ::
  "DirectusClient \<Rightarrow> refreshableQueryCache \<Rightarrow> Request
     \<Rightarrow> (error + Response) outcome \<times> refreshableQueryCache" where
  "Call d q r =
     (if Method r \<notin> {''GET'', ''POST'', ''PATCH'', ''DELETE''} then (Returns (Inl InvalidMethod), q)
      else
        (case url r of
           None \<Rightarrow> (Returns (Inl UrlRequired), q)
         | Some u \<Rightarrow>
             (case SplitN2 (Path u) ''items/'' of
                None \<Rightarrow> (Returns (Inl InvalidUrl), q)
              | Some (before, collection) \<Rightarrow>
                  (case cache_Get (cache d) q collection (effectiveQuery u) of
                     Inr data \<Rightarrow>
                       (Returns (Inr \<lparr>StatusCode = 200, RespHeader = Map.empty,
                                      RespBody = NewReader data\<rparr>), q)
                   | Inl miss \<Rightarrow>
                       (case Do d (prepare d r u) of
                          Inl err \<Rightarrow> (Returns (Inl err), q)
                        | Inr resp \<Rightarrow>
                            if StatusCode resp = 200 then
                              (case cache_Set (cache d) q collection (effectiveQuery u) (RespBody resp) of
                                 (Blocks, q') \<Rightarrow> (Blocks, q')
                               | (Returns (data, err), q') \<Rightarrow>
                                   (Returns (Inr (resp\<lparr>RespBody := NewReader data\<rparr>)), q'))
                            else (Returns (Inr resp), q))))))"

section \<open>Concrete inputs\<close>

text \<open>A working store with the default keyspace, a new server and a new cache over them.\<close>

definition store0 :: redisCacheService where
  "store0 = \<lparr>keyspace = ''directus'', up = True, kv = Map.empty\<rparr>"

definition cache0 :: refreshableQueryCache where
  "cache0 = NewRefreshableQueryCache store0 NewWebhookEventServer"

text \<open>The cache after \<^verbatim>\<open>Set("users", "a", p1)\<close>, and after \<^verbatim>\<open>Set("users", "b", p2)\<close> as well.\<close>

definition after_one :: refreshableQueryCache where
  "after_one = snd (refreshable_Set cache0 ''users'' ''a'' (NewReader ''p1''))"

definition after_two :: refreshableQueryCache where
  "after_two = snd (refreshable_Set after_one ''users'' ''b'' (NewReader ''p2''))"

text \<open>A change event for the collection \<^verbatim>\<open>users\<close>.\<close>

definition users_event :: WebhookEvent where
  "users_event = \<lparr>Event = ''items.update'', Payload = ''null'', Key = ''7'', Collection = ''users''\<rparr>"

text \<open>A server with one callback registered for \<^verbatim>\<open>users\<close>, and a cache that points to it.\<close>

definition registered :: WebhookEventServer where
  "registered = NewWebhookEventServer\<lparr>observes := [''users'' \<mapsto> UserCallback 1]\<rparr>"

definition cache_registered :: refreshableQueryCache where
  "cache_registered = NewRefreshableQueryCache store0 registered"

text \<open>The same cache over a store whose commands all fail.\<close>

definition cache_down :: refreshableQueryCache where
  "cache_down = NewRefreshableQueryCache (store0\<lparr>up := False\<rparr>) NewWebhookEventServer"

text \<open>The cache holding the bytes \<^verbatim>\<open>stale\<close> for \<^verbatim>\<open>("users", "limit=1000")\<close>.\<close>

definition cache_stale :: refreshableQueryCache where
  "cache_stale = snd (refreshable_Set cache0 ''users'' ''limit=1000'' (NewReader ''stale''))"

text \<open>An origin that answers every request with status 200 and the body \<^verbatim>\<open>fresh\<close>.\<close>

definition fresh_response :: Response where
  "fresh_response = \<lparr>StatusCode = 200, RespHeader = Map.empty, RespBody = NewReader ''fresh''\<rparr>"

definition origin_fresh :: "Request \<Rightarrow> error + Response" where
  "origin_fresh r = Inr fresh_response"

definition client0 :: DirectusClient where
  "client0 =
     \<lparr>baseURL = \<lparr>Scheme = ''https'', Host = ''localhost:8050'', Path = [], RawQuery = []\<rparr>,
      token = ''secret'', cache = RefreshableQueryCache, Do = origin_fresh\<rparr>"

text \<open>Requests for \<^verbatim>\<open>/items/users\<close> without a query string.\<close>

definition users_url :: URL where
  "users_url = \<lparr>Scheme = [], Host = [], Path = ''/items/users'', RawQuery = []\<rparr>"

definition users_request :: "string \<Rightarrow> Request" where
  "users_request m =
     \<lparr>Method = m, url = Some users_url, Header = Map.empty, ReqHost = [], RequestURI = [],
      Body = NewReader []\<rparr>"

text \<open>
  Requests to the ingestion endpoint, and a decoder that agrees with \<^verbatim>\<open>encoding/json\<close>
  on the three bodies used: \<^verbatim>\<open>{}\<close> decodes to the zero event, the document of the
  change event for \<^verbatim>\<open>users\<close> to that event, and \<^verbatim>\<open>x\<close> is a syntax error.
\<close>

definition zero_event :: WebhookEvent where
  "zero_event = \<lparr>Event = [], Payload = [], Key = [], Collection = []\<rparr>"

definition users_body :: bytes where
  \<open>users_body = ''{"event":"items.update","payload":null,"key":"7","collection":"users"}''\<close>

definition sample_Decode :: "reader \<Rightarrow> string + WebhookEvent" where
  "sample_Decode r =
     (if r = NewReader ''{}'' then Inr zero_event
      else if r = NewReader users_body then Inr users_event
      else Inl ''invalid character 'x' looking for beginning of value'')"

definition webhook_request :: "string \<Rightarrow> string \<Rightarrow> bytes \<Rightarrow> Request" where
  "webhook_request m ct b =
     \<lparr>Method = m, url = None, Header = [''Content-Type'' \<mapsto> [ct]], ReqHost = [],
      RequestURI = [], Body = NewReader b\<rparr>"

text \<open>
  The notification of the change event for \<^verbatim>\<open>users\<close>, posted to the endpoint; then the
  same followed by a tick. Starting from a new pipeline and the cache after its two
  writes: the first notification and its tick, four more, a sixth, and four notifications
  without a tick.
\<close>

definition users_post :: Request where
  "users_post = webhook_request ''POST'' ''application/json'' users_body"

definition post :: "pipeline \<times> refreshableQueryCache \<Rightarrow> pipeline \<times> refreshableQueryCache" where
  "post s = (snd (handler sample_Decode (fst s) users_post), snd s)"

definition post_then_tick ::
  "pipeline \<times> refreshableQueryCache \<Rightarrow> pipeline \<times> refreshableQueryCache" where
  "post_then_tick s = tick (fst (post s)) (snd (post s))"

definition dispatcher_jammed :: "pipeline \<times> refreshableQueryCache" where
  "dispatcher_jammed = post_then_tick (NewPipeline, after_two)"

definition outChan_full :: "pipeline \<times> refreshableQueryCache" where
  "outChan_full =
     post_then_tick (post_then_tick (post_then_tick (post_then_tick dispatcher_jammed)))"

definition pump_jammed :: "pipeline \<times> refreshableQueryCache" where
  "pump_jammed = post_then_tick outChan_full"

definition inChan_full :: "pipeline \<times> refreshableQueryCache" where
  "inChan_full = post (post (post (post pump_jammed)))"

text \<open>
  The server with its callback for \<^verbatim>\<open>users\<close> after \<^verbatim>\<open>RemoveObserver("posts")\<close>, and after
  \<^verbatim>\<open>AddObserver("posts", f)\<close> as well.
\<close>

definition removed :: WebhookEventServer where
  "removed = snd (RemoveObserver registered ''posts'')"

definition writer_waiting :: WebhookEventServer where
  "writer_waiting = snd (AddObserver removed ''posts'' (UserCallback 2))"

text \<open>Three notifications for one record, and the two events whose joined keys coincide.\<close>

definition burst :: "bytes \<Rightarrow> WebhookEvent" where
  "burst p = \<lparr>Event = ''items.update'', Payload = p, Key = ''7'', Collection = ''orders''\<rparr>"

definition colliding1 :: WebhookEvent where
  "colliding1 = \<lparr>Event = ''b:c'', Payload = ''1'', Key = ''d'', Collection = ''a''\<rparr>"

definition colliding2 :: WebhookEvent where
  "colliding2 = \<lparr>Event = ''c'', Payload = ''2'', Key = ''d'', Collection = ''a:b''\<rparr>"

section \<open>Cache keys: the single-record path\<close>

declare stripes.simps [simp del] tail8.simps [simp del] FormatUint16.simps [simp del]

lemmas hash_defs = Sum64_def tail4_def avalanche_def Let_def rol_def round64_def mergeRound_def
  prime1_def prime5_def prime2_def prime3_def prime4_def

lemma Split_no_sep: "sep \<notin> set s \<Longrightarrow> Split s sep = [s]"
  by (induction s) auto

lemma Split_at_sep: "sep \<notin> set a \<Longrightarrow> Split (a @ sep # b) sep = a # Split b sep"
  by (induction a) auto

lemma effective_plain: "CHR ''/'' \<notin> set c \<Longrightarrow> effective c q = (c, q)"
  by (simp add: effective_def Split_no_sep)

lemma effective_id:
  "CHR ''/'' \<notin> set c \<Longrightarrow> CHR ''/'' \<notin> set i \<Longrightarrow> effective (c @ CHR ''/'' # i) q = (c, id_query i)"
  by (simp add: effective_def Split_at_sep Split_no_sep)

lemma queryKey_plain:
  "CHR ''/'' \<notin> set c \<Longrightarrow> queryKey c q = c @ '':'' @ FormatUint16 (unat (Sum64 q))"
  by (simp add: queryKey_def effective_plain)

text \<open>The hash values below are those of XXH64 with seed 0.\<close>

lemma Sum64_id_code: \<open>Sum64 ''{"id": {"_eq": 42}}'' = 8739411243044445017\<close>
  by (simp add: hash_defs tail8.simps)

lemma Sum64_id_spec: \<open>Sum64 ''{"id":{"_eq":"42"}}'' = 11997814349686951156\<close>
  by (simp add: hash_defs tail8.simps)

lemma key_users_42: "queryKey ''users/42'' [] = ''users:7948a038dfb81b59''"
proof -
  have "effective ''users/42'' [] = (''users'', id_query ''42'')"
    using effective_id [of "''users''" "''42''" "[]"] by simp
  then show ?thesis
    by (simp add: queryKey_def id_query_def Sum64_id_code FormatUint16.simps hex_digit_def)
qed

lemma key_id_spec: \<open>queryKey ''users'' ''{"id":{"_eq":"42"}}'' = ''users:a680cc957a2cccf4''\<close>
  by (simp add: queryKey_plain Sum64_id_spec FormatUint16.simps hex_digit_def)

text \<open>
  Claim C3, as amended. For every collection \<open>c\<close> and id \<open>s\<close> without a \<^verbatim>\<open>/\<close>, the key
  for \<open>(c + "/" + s, q)\<close>, whatever \<open>q\<close> is, equals the key for \<open>c\<close> and the query
  \<^verbatim>\<open>{"id": {"_eq": s}}\<close>: a space after each colon, and the id spliced in without quotes.
\<close>

theorem queryKey_id_form:
  \<open>CHR ''/'' \<notin> set c \<Longrightarrow> CHR ''/'' \<notin> set s \<Longrightarrow>
     queryKey (c @ ''/'' @ s) q = queryKey c (''{"id": {"_eq": '' @ s @ ''}}'')\<close>
  by (simp add: queryKey_def effective_id effective_plain id_query_def)

theorem queryKey_id_form_witness:
  \<open>CHR ''/'' \<notin> set ''users'' \<and> CHR ''/'' \<notin> set ''42'' \<and>
   queryKey ''users/42'' [] = queryKey ''users'' ''{"id": {"_eq": 42}}''\<close>
  using queryKey_id_form [of "''users''" "''42''" "[]"] by simp

lemma key_nested_path:
  \<open>queryKey ''a/b/c'' [] \<noteq> queryKey ''a'' ''{"id": {"_eq": b/c}}''\<close>
  by (simp add: queryKey_def effective_def)

text \<open>
  Claim C3, as stated, fails: the key for \<^verbatim>\<open>("users/42", "")\<close> is not the key for
  \<^verbatim>\<open>("users", '{"id":{"_eq":"42"}}')\<close>. An id with a \<^verbatim>\<open>/\<close> in it is not rewritten at all:
  the key for \<^verbatim>\<open>("a/b/c", "")\<close> keeps the whole path as its collection.
\<close>

theorem queryKey_id_form_counterexample:
  \<open>queryKey ''users/42'' [] \<noteq> queryKey ''users'' ''{"id":{"_eq":"42"}}'' \<and>
   queryKey ''a/b/c'' [] \<noteq> queryKey ''a'' ''{"id": {"_eq": b/c}}''\<close>
  by (simp add: key_users_42 key_id_spec key_nested_path)

section \<open>The deduplication of a flushed buffer\<close>

lemma update_entries:
  "(k', v') \<in> set (AList.update k v al) \<Longrightarrow> (k', v') \<in> set al \<or> (k', v') = (k, v)"
  by (induction al) (auto split: if_splits)

lemma fold_update_keyed:
  "\<forall>(k, e) \<in> set m. k = composite e \<Longrightarrow>
   \<forall>(k, e) \<in> set (fold (\<lambda>e m. AList.update (composite e) e m) ex m). k = composite e"
proof (induction ex arbitrary: m)
  case Nil
  then show ?case by simp
next
  case (Cons x ex)
  have "\<forall>(k, e) \<in> set (AList.update (composite x) x m). k = composite e"
    using Cons.prems update_entries [of _ _ "composite x" x m] by fastforce
  then show ?case using Cons.IH by simp
qed

lemma fold_update_distinct:
  "distinct (map fst m) \<Longrightarrow>
   distinct (map fst (fold (\<lambda>e m. AList.update (composite e) e m) ex m))"
  by (induction ex arbitrary: m) (simp_all add: distinct_update)

lemma fold_update_map_of:
  "map_of (fold (\<lambda>e m. AList.update (composite e) e m) ex m) k =
     (case filter (\<lambda>e. composite e = k) ex of [] \<Rightarrow> map_of m k | y # ys \<Rightarrow> Some (last (y # ys)))"
proof (induction ex arbitrary: m)
  case Nil
  then show ?case by simp
next
  case (Cons x ex)
  show ?case
    by (simp add: Cons.IH update_conv' split: list.splits)
qed

lemma uniqueEvents_keyed: "(k, e) \<in> set (uniqueEvents ex) \<Longrightarrow> k = composite e"
  using fold_update_keyed [of "[]" ex] by (auto simp: uniqueEvents_def)

lemma uniqueEvents_distinct: "distinct (map fst (uniqueEvents ex))"
  by (simp add: uniqueEvents_def fold_update_distinct)

lemma uniqueEvents_map_of:
  "map_of (uniqueEvents ex) k =
     (case filter (\<lambda>e. composite e = k) ex of [] \<Rightarrow> None | y # ys \<Rightarrow> Some (last (y # ys)))"
  by (simp add: uniqueEvents_def fold_update_map_of split: list.splits)

lemma dispatched_keys: "map composite (dispatched ex) = map fst (uniqueEvents ex)"
  using uniqueEvents_keyed [of _ _ ex] by (auto simp: dispatched_def)

lemma dispatched_iff:
  "e \<in> set (dispatched ex) \<longleftrightarrow>
     e \<in> set ex \<and> last (filter (\<lambda>x. composite x = composite e) ex) = e"
proof
  assume "e \<in> set (dispatched ex)"
  then obtain k where "(k, e) \<in> set (uniqueEvents ex)"
    by (auto simp: dispatched_def)
  then have k: "k = composite e" and m: "map_of (uniqueEvents ex) k = Some e"
    using uniqueEvents_keyed uniqueEvents_distinct by auto
  from m obtain y ys where f: "filter (\<lambda>x. composite x = k) ex = y # ys" and l: "last (y # ys) = e"
    by (auto simp: uniqueEvents_map_of split: list.splits)
  have "e \<in> set (filter (\<lambda>x. composite x = k) ex)"
    using f l last_in_set [of "y # ys"] by simp
  then show "e \<in> set ex \<and> last (filter (\<lambda>x. composite x = composite e) ex) = e"
    using f l k by simp
next
  assume a: "e \<in> set ex \<and> last (filter (\<lambda>x. composite x = composite e) ex) = e"
  then have "filter (\<lambda>x. composite x = composite e) ex \<noteq> []"
    by (auto simp: filter_empty_conv)
  then have "map_of (uniqueEvents ex) (composite e) = Some e"
    using a by (auto simp: uniqueEvents_map_of split: list.splits)
  then have "(composite e, e) \<in> set (uniqueEvents ex)"
    by (rule map_of_SomeD)
  then show "e \<in> set (dispatched ex)"
    by (force simp: dispatched_def)
qed

lemma dispatched_distinct: "distinct (map composite (dispatched ex))"
  by (simp add: dispatched_keys uniqueEvents_distinct)

lemma dispatched_covers: "composite ` set (dispatched ex) = composite ` set ex"
proof
  show "composite ` set (dispatched ex) \<subseteq> composite ` set ex"
    by (auto simp: dispatched_iff)
next
  show "composite ` set ex \<subseteq> composite ` set (dispatched ex)"
  proof
    fix k assume "k \<in> composite ` set ex"
    then obtain x where x: "x \<in> set ex" "composite x = k" by auto
    let ?f = "filter (\<lambda>y. composite y = k) ex"
    have ne: "?f \<noteq> []" using x by (auto simp: filter_empty_conv)
    then have "last ?f \<in> set ?f" by (rule last_in_set)
    then have "last ?f \<in> set ex" "composite (last ?f) = k" by auto
    then have "last ?f \<in> set (dispatched ex)" by (simp add: dispatched_iff)
    then show "k \<in> composite ` set (dispatched ex)"
      using \<open>composite (last ?f) = k\<close> by force
  qed
qed


lemma same_triple_same_key: "triple x = triple y \<Longrightarrow> composite x = composite y"
  by (simp add: triple_def composite_def)

lemma last_filter_stronger:
  "(\<And>x. P x \<Longrightarrow> Q x) \<Longrightarrow> P e \<Longrightarrow> e \<in> set ex \<Longrightarrow> last (filter Q ex) = e
     \<Longrightarrow> last (filter P ex) = e"
proof (induction ex rule: rev_induct)
  case Nil
  then show ?case by simp
next
  case (snoc x xs)
  show ?case
  proof (cases "Q x")
    case True
    then have "x = e" using snoc.prems(4) by simp
    then show ?thesis using snoc.prems(2) by simp
  next
    case False
    then have "\<not> P x" using snoc.prems(1) by blast
    moreover have "e \<in> set xs" using snoc.prems False by auto
    moreover have "last (filter Q xs) = e" using snoc.prems(4) False by simp
    ultimately show ?thesis using snoc.IH snoc.prems(1,2) by simp
  qed
qed

lemma dispatched_last_of_triple:
  assumes "e \<in> set (dispatched ex)"
  shows "last (filter (\<lambda>x. triple x = triple e) ex) = e"
proof (rule last_filter_stronger [where Q = "\<lambda>x. composite x = composite e"])
  show "\<And>x. triple x = triple e \<Longrightarrow> composite x = composite e"
    by (rule same_triple_same_key)
  show "triple e = triple e" ..
  show "e \<in> set ex" using assms by (simp add: dispatched_iff)
  show "last (filter (\<lambda>x. composite x = composite e) ex) = e"
    using assms by (simp add: dispatched_iff)
qed

lemma dispatched_distinct_triple: "distinct (map triple (dispatched ex))"
proof -
  have "distinct (dispatched ex)" "inj_on composite (set (dispatched ex))"
    using dispatched_distinct [of ex] by (simp_all add: distinct_map)
  moreover from this have "inj_on triple (set (dispatched ex))"
    using same_triple_same_key unfolding inj_on_def by blast
  ultimately show ?thesis by (simp add: distinct_map)
qed

lemma distinct_singleton: "distinct xs \<Longrightarrow> set xs = {a} \<Longrightarrow> xs = [a]"
proof (cases xs)
  case Nil
  assume "set xs = {a}"
  then show ?thesis using Nil by simp
next
  case (Cons y ys)
  assume d: "distinct xs" and s: "set xs = {a}"
  have "y = a" using s Cons by auto
  moreover have "ys = []"
  proof (cases ys)
    case Nil
    then show ?thesis .
  next
    case (Cons z zs)
    then have "z = a" "z \<noteq> y" using s d \<open>xs = y # ys\<close> by auto
    then show ?thesis using \<open>y = a\<close> by simp
  qed
  ultimately show ?thesis using Cons by simp
qed

lemma dispatched_one_key:
  assumes "ex \<noteq> []" and "\<forall>e \<in> set ex. triple e = t"
  shows "dispatched ex = [last ex]"
proof -
  have l: "last ex \<in> set ex" using assms(1) by simp
  have same: "composite x = composite (last ex)" if "x \<in> set ex" for x
  proof (rule same_triple_same_key)
    show "triple x = triple (last ex)" using assms(2) l that by metis
  qed
  have "filter (\<lambda>x. composite x = composite (last ex)) ex = ex"
    by (intro filter_True ballI same)
  then have in_d: "last ex \<in> set (dispatched ex)"
    unfolding dispatched_iff using l by metis
  have inj: "inj_on composite (set (dispatched ex))" and dist: "distinct (dispatched ex)"
    using dispatched_distinct [of ex] by (simp_all add: distinct_map)
  have "e = last ex" if e: "e \<in> set (dispatched ex)" for e
  proof -
    have "e \<in> set ex" using e unfolding dispatched_iff by blast
    then have "composite e = composite (last ex)" by (rule same)
    with inj show ?thesis using e in_d by (rule inj_onD)
  qed
  then have "set (dispatched ex) = {last ex}" using in_d by blast
  then show ?thesis using dist by (rule distinct_singleton [rotated])
qed

text \<open>
  Claim C6, as amended. The flush step deduplicates the buffer by the string
  \<^verbatim>\<open>collection:event:key\<close> and keeps the last event seen for each such string: the
  dispatched events have pairwise different strings, every string of the buffer is the
  string of a dispatched event, and every dispatched event is the last event of the
  buffer with its string. No two dispatched events agree on collection, event kind and
  record key, and each is the last of the buffer with its three components. A buffer
  whose events all have the same collection, event kind and record key, such as three
  notifications for one record, is dispatched as exactly one event, the last submitted.
\<close>

theorem flush_keeps_last_per_key:
  "distinct (map composite (dispatched ex)) \<and>
   composite ` set (dispatched ex) = composite ` set ex \<and>
   (\<forall>e \<in> set (dispatched ex).
      e \<in> set ex \<and> last (filter (\<lambda>x. composite x = composite e) ex) = e) \<and>
   distinct (map triple (dispatched ex)) \<and>
   (\<forall>e \<in> set (dispatched ex). last (filter (\<lambda>x. triple x = triple e) ex) = e) \<and>
   (ex \<noteq> [] \<and> (\<forall>e \<in> set ex. triple e = t) \<longrightarrow> dispatched ex = [last ex])"
proof (intro conjI ballI impI)
  show "distinct (map composite (dispatched ex))" by (rule dispatched_distinct)
  show "composite ` set (dispatched ex) = composite ` set ex" by (rule dispatched_covers)
  show "distinct (map triple (dispatched ex))" by (rule dispatched_distinct_triple)
next
  fix e assume e: "e \<in> set (dispatched ex)"
  then show "e \<in> set ex" unfolding dispatched_iff by blast
  from e show "last (filter (\<lambda>x. composite x = composite e) ex) = e"
    unfolding dispatched_iff by blast
next
  fix e assume "e \<in> set (dispatched ex)"
  then show "last (filter (\<lambda>x. triple x = triple e) ex) = e"
    by (rule dispatched_last_of_triple)
next
  assume "ex \<noteq> [] \<and> (\<forall>e \<in> set ex. triple e = t)"
  then show "dispatched ex = [last ex]" using dispatched_one_key by blast
qed

theorem flush_keeps_last_per_key_witness:
  "burst ''1'' \<noteq> burst ''3'' \<and> triple (burst ''1'') = triple (burst ''3'') \<and>
   triple (burst ''2'') = triple (burst ''3'') \<and>
   dispatched [burst ''1'', burst ''2'', burst ''3''] = [burst ''3'']"
proof -
  have "[burst ''1'', burst ''2'', burst ''3''] \<noteq> [] \<and>
        (\<forall>e \<in> set [burst ''1'', burst ''2'', burst ''3'']. triple e = triple (burst ''3''))"
    by (simp add: burst_def triple_def)
  then have "dispatched [burst ''1'', burst ''2'', burst ''3''] =
             [last [burst ''1'', burst ''2'', burst ''3'']]"
    using flush_keeps_last_per_key [of "[burst ''1'', burst ''2'', burst ''3'']" "triple (burst ''3'')"]
    by blast
  then show ?thesis by (simp add: burst_def triple_def)
qed

text \<open>
  Claim C6, as stated, fails: the last event seen for a triple of collection, event kind
  and record key is not always kept. In the buffer of the event with collection
  \<^verbatim>\<open>a:b\<close>, event \<^verbatim>\<open>c\<close> and key \<^verbatim>\<open>d\<close> followed by the event with collection \<^verbatim>\<open>a\<close>, event
  \<^verbatim>\<open>b:c\<close> and key \<^verbatim>\<open>d\<close>, the first is the only event with its triple, and it is not
  dispatched.
\<close>

theorem flush_keeps_last_per_key_counterexample:
  "triple colliding2 \<noteq> triple colliding1 \<and>
   colliding2 \<notin> set (dispatched [colliding2, colliding1]) \<and>
   dispatched [colliding2, colliding1] = [colliding1]"
  by (simp add: triple_def composite_def colliding1_def colliding2_def dispatched_def
      uniqueEvents_def)

text \<open>
  Claim C10. The composite key is the string \<^verbatim>\<open>collection:event:key\<close>, not the triple:
  the event with collection \<^verbatim>\<open>a\<close>, event \<^verbatim>\<open>b:c\<close> and key \<^verbatim>\<open>d\<close> and the event with
  collection \<^verbatim>\<open>a:b\<close>, event \<^verbatim>\<open>c\<close> and key \<^verbatim>\<open>d\<close> differ as triples, have the same
  composite key, and one flush of the two dispatches a single event.
\<close>

theorem joined_key_collision:
  "triple colliding1 \<noteq> triple colliding2 \<and>
   composite colliding1 = ''a:b:c:d'' \<and> composite colliding2 = ''a:b:c:d'' \<and>
   dispatched [colliding1, colliding2] = [colliding2]"
  by (simp add: triple_def composite_def colliding1_def colliding2_def dispatched_def
      uniqueEvents_def)

section \<open>Locks\<close>

lemma Lock_free: "Lock l \<noteq> None \<Longrightarrow> Lock l = Some (l\<lparr>writer := True\<rparr>) \<and> Unlock (l\<lparr>writer := True\<rparr>) = l"
  by (cases l) (auto simp: Lock_def Unlock_def split: if_splits)

lemma RLock_free: "RLock l \<noteq> None \<Longrightarrow> RLock l = Some (l\<lparr>readers := Suc (readers l)\<rparr>)"
  by (auto simp: RLock_def split: if_splits)

section \<open>The observer registry\<close>

text \<open>What the two operations do when they get their lock.\<close>

lemma AddObserver_new:
  "Lock (wes_mu w) \<noteq> None \<Longrightarrow> observes w k = None \<Longrightarrow>
     AddObserver w k f = (Returns None, w\<lparr>observes := (observes w)(k \<mapsto> f)\<rparr>)"
  using Lock_free [of "wes_mu w"] by (simp add: AddObserver_def)

lemma AddObserver_duplicate:
  "Lock (wes_mu w) \<noteq> None \<Longrightarrow> observes w k = Some g \<Longrightarrow>
     AddObserver w k f = (Returns (Some AlreadyExists), w)"
  using Lock_free [of "wes_mu w"] by (simp add: AddObserver_def)

lemma AddObserver_blocked:
  "Lock (wes_mu w) = None \<Longrightarrow>
     AddObserver w k f = (Blocks, w\<lparr>wes_mu := Lock_waits (wes_mu w)\<rparr>)"
  by (simp add: AddObserver_def)

lemma RemoveObserver_removes:
  "RLock (wes_mu w) \<noteq> None \<Longrightarrow>
     fst (RemoveObserver w k) = Returns () \<and>
     observes (snd (RemoveObserver w k)) = (observes w)(k := None)"
  using RLock_free [of "wes_mu w"] by (simp add: RemoveObserver_def)

lemma invoke_fired:
  "\<exists>rest. fired (wes (snd (invoke f e q))) = fired (wes q) @ rest"
  by (cases f) (auto simp: pruneCollection_def split: option.splits prod.splits outcome.splits)

lemma invoke_if_registered_fired:
  "\<exists>rest. fired (wes (snd (invoke_if_registered k e q))) = fired (wes q) @ rest"
  using invoke_fired by (auto simp: invoke_if_registered_def split: option.splits)

lemma notify_fires:
  assumes "observes (wes q) (Collection e) = Some (UserCallback n)"
  shows "\<exists>rest. fired (wes (snd (notify e q))) = fired (wes q) @ (n, e) # rest"
proof -
  let ?q1 = "q\<lparr>wes := (wes q)\<lparr>fired := fired (wes q) @ [(n, e)]\<rparr>\<rparr>"
  have first: "invoke_if_registered (Collection e) e q = (Returns (), ?q1)"
    using assms by (simp add: invoke_if_registered_def)
  obtain rest where "fired (wes (snd (invoke_if_registered ''*'' e ?q1))) = fired (wes ?q1) @ rest"
    using invoke_if_registered_fired by blast
  then show ?thesis by (simp add: notify_def first)
qed

text \<open>A flush that gets its read lock calls the callback of the event's collection.\<close>

lemma flush_one_fires:
  assumes "observes (wes q) (Collection e) = Some (UserCallback n)"
    and "RLock (wes_mu (wes q)) \<noteq> None"
  shows "\<exists>rest. fired (wes (snd (flush [e] q))) = fired (wes q) @ (n, e) # rest"
proof -
  obtain l where l: "RLock (wes_mu (wes q)) = Some l" using assms(2) by blast
  let ?q0 = "q\<lparr>wes := (wes q)\<lparr>wes_mu := l\<rparr>\<rparr>"
  have d: "dispatched [e] = [e]" by (simp add: dispatched_def uniqueEvents_def)
  have "observes (wes ?q0) (Collection e) = Some (UserCallback n)" using assms(1) by simp
  then obtain rest where r: "fired (wes (snd (notify e ?q0))) = fired (wes ?q0) @ (n, e) # rest"
    using notify_fires by blast
  show ?thesis
    using r by (cases "notify e ?q0") (auto simp: flush_def l d split: outcome.splits)
qed

text \<open>On a new server the duplicate is refused and the first callback is the one called.\<close>

lemma duplicate_on_new_server:
  "AddObserver NewWebhookEventServer ''users'' (UserCallback 1) = (Returns None, registered) \<and>
   AddObserver registered ''users'' (UserCallback 2) = (Returns (Some AlreadyExists), registered) \<and>
   fired (wes (snd (flush [users_event] cache_registered))) = [(1, users_event)]"
proof (intro conjI)
  show "AddObserver NewWebhookEventServer ''users'' (UserCallback 1) = (Returns None, registered)"
    by (simp add: AddObserver_def registered_def NewWebhookEventServer_def Lock_def Unlock_def
        free_def)
  show "AddObserver registered ''users'' (UserCallback 2) = (Returns (Some AlreadyExists), registered)"
    by (rule AddObserver_duplicate)
       (simp_all add: registered_def NewWebhookEventServer_def Lock_def free_def)
  show "fired (wes (snd (flush [users_event] cache_registered))) = [(1, users_event)]"
    by (simp add: flush_def cache_registered_def NewRefreshableQueryCache_def registered_def
        NewWebhookEventServer_def RLock_def RUnlock_def free_def dispatched_def uniqueEvents_def
        notify_def invoke_if_registered_def users_event_def)
qed

lemma removed_eq:
  "removed = registered\<lparr>wes_mu := \<lparr>writer = False, readers = 1, waiting = False\<rparr>\<rparr>"
  by (simp add: removed_def RemoveObserver_def registered_def NewWebhookEventServer_def
      RLock_def free_def)

lemma writer_waiting_eq:
  "writer_waiting = registered\<lparr>wes_mu := \<lparr>writer = False, readers = 1, waiting = True\<rparr>\<rparr>"
  by (simp add: writer_waiting_def removed_eq AddObserver_def registered_def
      NewWebhookEventServer_def Lock_def Lock_waits_def free_def)

text \<open>
  Claim C7 fails on the code. On a server with a callback for \<^verbatim>\<open>users\<close>,
  \<^verbatim>\<open>RemoveObserver("posts")\<close> returns, with no error to report, and no callback is
  registered for \<^verbatim>\<open>posts\<close>; \<^verbatim>\<open>AddObserver("posts", f)\<close> after it never returns, where
  the claim has it succeed, since \<^verbatim>\<open>RemoveObserver\<close> has kept its read lock. From
  then on the flush of an event for \<^verbatim>\<open>users\<close> waits behind the waiting writer: the
  callback registered for \<^verbatim>\<open>users\<close> is still in place and is not called.
\<close>

theorem AddObserver_after_RemoveObserver:
  "fst (RemoveObserver registered ''posts'') = Returns () \<and>
   observes removed ''posts'' = None \<and>
   fst (AddObserver removed ''posts'' (UserCallback 2)) = Blocks \<and>
   observes writer_waiting ''users'' = Some (UserCallback 1) \<and>
   fst (flush [users_event] (cache_registered\<lparr>wes := writer_waiting\<rparr>)) = Blocks \<and>
   fired (wes (snd (flush [users_event] (cache_registered\<lparr>wes := writer_waiting\<rparr>)))) = []"
proof (intro conjI)
  show "fst (RemoveObserver registered ''posts'') = Returns ()"
    by (simp add: RemoveObserver_def registered_def NewWebhookEventServer_def RLock_def free_def)
  show "observes removed ''posts'' = None"
    by (simp add: removed_eq registered_def NewWebhookEventServer_def)
  show "fst (AddObserver removed ''posts'' (UserCallback 2)) = Blocks"
    by (simp add: removed_eq AddObserver_def Lock_def)
  show "observes writer_waiting ''users'' = Some (UserCallback 1)"
    by (simp add: writer_waiting_eq registered_def)
  show "fst (flush [users_event] (cache_registered\<lparr>wes := writer_waiting\<rparr>)) = Blocks"
    by (simp add: writer_waiting_eq flush_def RLock_def)
  show "fired (wes (snd (flush [users_event] (cache_registered\<lparr>wes := writer_waiting\<rparr>)))) = []"
    by (simp add: writer_waiting_eq flush_def RLock_def registered_def NewWebhookEventServer_def)
qed

section \<open>The query cache: storing and reading back\<close>

lemma refreshable_Set_store:
  "up (store q) \<Longrightarrow>
     store (snd (refreshable_Set q c rq (NewReader p))) =
       (store q)\<lparr>kv := (kv (store q))(keyspace (store q) @ '':'' @ queryKey c rq \<mapsto> p)\<rparr>"
  by (auto simp: refreshable_Set_def NewReader_def redis_Set_def
      split: option.splits prod.splits outcome.splits)

lemma AddObserver_returns:
  "Lock (wes_mu w) \<noteq> None \<Longrightarrow> \<exists>err. fst (AddObserver w k f) = Returns err"
  by (auto simp: AddObserver_def split: option.splits)

lemma refreshable_Set_returns:
  assumes "up (store q)" and "Lock (mu q) \<noteq> None"
    and "c \<in> observedCollections q \<or> Lock (wes_mu (wes q)) \<noteq> None"
  shows "fst (refreshable_Set q c rq (NewReader p)) = Returns (p, None)"
proof (cases "c \<in> observedCollections q")
  case True
  then show ?thesis
    using assms(1,2) by (auto simp: refreshable_Set_def NewReader_def redis_Set_def)
next
  case False
  then obtain err where "fst (AddObserver (wes q) c (PruneCollection c)) = Returns err"
    using assms(3) AddObserver_returns by blast
  then show ?thesis
    using assms(1,2) False
    by (cases "AddObserver (wes q) c (PruneCollection c)")
       (auto simp: refreshable_Set_def NewReader_def redis_Set_def)
qed

lemma Get_after_Set:
  "up (store q) \<Longrightarrow> refreshable_Get (snd (refreshable_Set q c rq (NewReader p))) c rq = Inr p"
  by (simp add: refreshable_Get_def refreshable_Set_store redis_Get_def)

text \<open>
  Over a store whose commands succeed, a \<^verbatim>\<open>Set\<close> that gets the locks it asks for (the
  cache's, and the registry's for a collection not yet observed) returns exactly the bytes
  of the stream and no error, and \<^verbatim>\<open>Get\<close> right after it returns them.
\<close>

lemma Set_then_Get:
  "up (store q) \<Longrightarrow> Lock (mu q) \<noteq> None \<Longrightarrow>
   c \<in> observedCollections q \<or> Lock (wes_mu (wes q)) \<noteq> None \<Longrightarrow>
     fst (refreshable_Set q c rq (NewReader p)) = Returns (p, None) \<and>
     refreshable_Get (snd (refreshable_Set q c rq (NewReader p))) c rq = Inr p"
  by (simp add: refreshable_Set_returns Get_after_Set)

lemma cache0_ready:
  "up (store cache0) \<and> Lock (mu cache0) \<noteq> None \<and> Lock (wes_mu (wes cache0)) \<noteq> None"
  by (simp add: cache0_def NewRefreshableQueryCache_def store0_def NewWebhookEventServer_def
      Lock_def free_def)

section \<open>Eviction after two writes\<close>

lemma after_one_eq:
  "after_one =
     \<lparr>mu = free,
      store = store0\<lparr>kv := [''directus:'' @ queryKey ''users'' ''a'' \<mapsto> ''p1'']\<rparr>,
      observedCollections = {''users''},
      wes = NewWebhookEventServer\<lparr>observes := [''users'' \<mapsto> PruneCollection ''users'']\<rparr>\<rparr>"
  by (simp add: after_one_def refreshable_Set_def NewReader_def redis_Set_def cache0_def
      NewRefreshableQueryCache_def store0_def NewWebhookEventServer_def Lock_def Unlock_def
      free_def AddObserver_def)

lemma after_two_eq:
  "after_two =
     \<lparr>mu = \<lparr>writer = True, readers = 0, waiting = False\<rparr>,
      store = store0\<lparr>kv := [''directus:'' @ queryKey ''users'' ''a'' \<mapsto> ''p1'',
                            ''directus:'' @ queryKey ''users'' ''b'' \<mapsto> ''p2'']\<rparr>,
      observedCollections = {''users''},
      wes = NewWebhookEventServer\<lparr>observes := [''users'' \<mapsto> PruneCollection ''users'']\<rparr>\<rparr>"
  by (simp add: after_two_def after_one_eq refreshable_Set_def NewReader_def redis_Set_def
      store0_def NewWebhookEventServer_def Lock_def Unlock_def free_def)


lemma Sum64_a: "Sum64 ''a'' = 15154266338359012955"
  by (simp add: hash_defs tail8.simps)

lemma Sum64_b: "Sum64 ''b'' = 8666379929374662555"
  by (simp add: hash_defs tail8.simps)

lemma key_users_a: "queryKey ''users'' ''a'' = ''users:d24ec4f1a98c6e5b''"
  by (simp add: queryKey_plain Sum64_a FormatUint16.simps hex_digit_def)

lemma key_users_b: "queryKey ''users'' ''b'' = ''users:78452aa11af39f9b''"
  by (simp add: queryKey_plain Sum64_b FormatUint16.simps hex_digit_def)

lemma flush_after_two:
  "flush [users_event] after_two =
     (Blocks,
      after_two\<lparr>mu := \<lparr>writer = True, readers = 0, waiting = True\<rparr>,
        wes := (wes after_two)\<lparr>wes_mu := \<lparr>writer = False, readers = 1, waiting = False\<rparr>\<rparr>\<rparr>)"
  by (simp add: after_two_eq flush_def dispatched_def uniqueEvents_def users_event_def
      NewWebhookEventServer_def free_def RLock_def notify_def invoke_if_registered_def
      pruneCollection_def Lock_def Lock_waits_def)

lemma flush_after_one:
  "flush [users_event] after_one =
     (Returns (),
      after_one\<lparr>observedCollections := {},
        store := (store after_one)\<lparr>kv := (kv (store after_one))(''directus:users:*'' := None)\<rparr>\<rparr>)"
  by (simp add: after_one_eq flush_def dispatched_def uniqueEvents_def users_event_def
      NewWebhookEventServer_def free_def RLock_def RUnlock_def notify_def invoke_if_registered_def
      pruneCollection_def Lock_def Unlock_def redis_Del_def store0_def)

text \<open>
  Claim C5 fails on the code. On a new cache over a working store the first \<^verbatim>\<open>Set\<close>
  returns its bytes and \<^verbatim>\<open>Get\<close> reads them back, and the second \<^verbatim>\<open>Set\<close> for the same
  collection returns its bytes. The third \<^verbatim>\<open>Set\<close>, here for another collection, never
  returns, where the claim has it return the bytes it read: the second has kept the
  cache's lock.
\<close>

theorem third_Set_never_returns:
  "fst (refreshable_Set cache0 ''users'' ''a'' (NewReader ''p1'')) = Returns (''p1'', None) \<and>
   refreshable_Get after_one ''users'' ''a'' = Inr ''p1'' \<and>
   fst (refreshable_Set after_one ''users'' ''b'' (NewReader ''p2'')) = Returns (''p2'', None) \<and>
   fst (refreshable_Set after_two ''posts'' ''a'' (NewReader ''p3'')) = Blocks"
proof (intro conjI)
  show "fst (refreshable_Set cache0 ''users'' ''a'' (NewReader ''p1'')) = Returns (''p1'', None)"
    using cache0_ready by (intro refreshable_Set_returns) simp_all
  show "refreshable_Get after_one ''users'' ''a'' = Inr ''p1''"
    unfolding after_one_def using cache0_ready by (intro Get_after_Set) simp
  show "fst (refreshable_Set after_one ''users'' ''b'' (NewReader ''p2'')) = Returns (''p2'', None)"
    by (simp add: after_one_eq refreshable_Set_def NewReader_def redis_Set_def store0_def
        Lock_def free_def)
  show "fst (refreshable_Set after_two ''posts'' ''a'' (NewReader ''p3'')) = Blocks"
    by (simp add: after_two_eq refreshable_Set_def NewReader_def redis_Set_def store0_def
        Lock_def)
qed

text \<open>
  Claim C1 fails on the code. After \<^verbatim>\<open>Set("users", "a", p1)\<close> and
  \<^verbatim>\<open>Set("users", "b", p2)\<close> on a new cache, the eviction callback for \<^verbatim>\<open>users\<close> never
  returns, whether called directly or by the flush of a change event for \<^verbatim>\<open>users\<close>: the
  second \<^verbatim>\<open>Set\<close> returned with the cache's lock held. Both entries are still read by
  \<^verbatim>\<open>Get\<close>. After the first \<^verbatim>\<open>Set\<close> alone the callback runs to its end, and \<^verbatim>\<open>Get\<close>
  still reads the entry: what the store is told to delete is the one key \<^verbatim>\<open>users:*\<close>.
\<close>

theorem eviction_leaves_entries:
  "fst (pruneCollection after_two ''users'') = Blocks \<and>
   fst (flush [users_event] after_two) = Blocks \<and>
   refreshable_Get (snd (flush [users_event] after_two)) ''users'' ''a'' = Inr ''p1'' \<and>
   refreshable_Get (snd (flush [users_event] after_two)) ''users'' ''b'' = Inr ''p2'' \<and>
   fst (flush [users_event] after_one) = Returns () \<and>
   refreshable_Get (snd (flush [users_event] after_one)) ''users'' ''a'' = Inr ''p1''"
proof (intro conjI)
  show "fst (pruneCollection after_two ''users'') = Blocks"
    by (simp add: after_two_eq pruneCollection_def Lock_def)
  show "fst (flush [users_event] after_two) = Blocks"
    by (simp add: flush_after_two)
  show "refreshable_Get (snd (flush [users_event] after_two)) ''users'' ''a'' = Inr ''p1''"
    unfolding flush_after_two snd_conv
    by (simp add: after_two_eq refreshable_Get_def redis_Get_def store0_def
        key_users_a key_users_b)
  show "refreshable_Get (snd (flush [users_event] after_two)) ''users'' ''b'' = Inr ''p2''"
    unfolding flush_after_two snd_conv
    by (simp add: after_two_eq refreshable_Get_def redis_Get_def store0_def
        key_users_a key_users_b)
  show "fst (flush [users_event] after_one) = Returns ()"
    by (simp add: flush_after_one)
  show "refreshable_Get (snd (flush [users_event] after_one)) ''users'' ''a'' = Inr ''p1''"
    unfolding flush_after_one snd_conv
    by (simp add: after_one_eq refreshable_Get_def redis_Get_def store0_def
        key_users_a)
qed

text \<open>
  Claim C9 fails on the code. \<^verbatim>\<open>Set\<close> for a collection that is already observed returns
  its bytes with the cache's exclusive lock still held, where the lock was free before
  the call; the next \<^verbatim>\<open>Set\<close> waits for ever. \<^verbatim>\<open>RemoveObserver\<close> returns with its read
  lock still held; the next \<^verbatim>\<open>AddObserver\<close> waits for ever.
\<close>

theorem locks_left_held:
  "mu after_one = free \<and>
   fst (refreshable_Set after_one ''users'' ''b'' (NewReader ''p2'')) = Returns (''p2'', None) \<and>
   mu after_two = \<lparr>writer = True, readers = 0, waiting = False\<rparr> \<and>
   fst (refreshable_Set after_two ''users'' ''c'' (NewReader ''p3'')) = Blocks \<and>
   fst (RemoveObserver NewWebhookEventServer ''users'') = Returns () \<and>
   wes_mu (snd (RemoveObserver NewWebhookEventServer ''users'')) =
     \<lparr>writer = False, readers = 1, waiting = False\<rparr> \<and>
   fst (AddObserver (snd (RemoveObserver NewWebhookEventServer ''users'')) ''users'' (UserCallback 1)) =
     Blocks"
proof (intro conjI)
  show "mu after_one = free" by (simp add: after_one_eq)
  show "fst (refreshable_Set after_one ''users'' ''b'' (NewReader ''p2'')) = Returns (''p2'', None)"
    by (simp add: after_one_eq refreshable_Set_def NewReader_def redis_Set_def store0_def
        Lock_def free_def)
  show "mu after_two = \<lparr>writer = True, readers = 0, waiting = False\<rparr>" by (simp add: after_two_eq)
  show "fst (refreshable_Set after_two ''users'' ''c'' (NewReader ''p3'')) = Blocks"
    by (simp add: after_two_eq refreshable_Set_def NewReader_def redis_Set_def store0_def
        Lock_def)
  show "fst (RemoveObserver NewWebhookEventServer ''users'') = Returns ()"
    by (simp add: RemoveObserver_def NewWebhookEventServer_def RLock_def free_def)
  show "wes_mu (snd (RemoveObserver NewWebhookEventServer ''users'')) =
     \<lparr>writer = False, readers = 1, waiting = False\<rparr>"
    by (simp add: RemoveObserver_def NewWebhookEventServer_def RLock_def free_def)
  show "fst (AddObserver (snd (RemoveObserver NewWebhookEventServer ''users'')) ''users'' (UserCallback 1)) =
     Blocks"
    by (simp add: RemoveObserver_def NewWebhookEventServer_def RLock_def free_def
        AddObserver_def Lock_def)
qed


section \<open>Eviction and locks in general\<close>

text \<open>No key that \<^verbatim>\<open>queryKey\<close> derives ends in \<^verbatim>\<open>*\<close>, so the key that \<^verbatim>\<open>pruneCollection\<close>
  deletes is never the key of an entry.\<close>

lemma hex_digit_not_star: "hex_digit d \<noteq> CHR ''*''"
proof -
  have "d mod 16 < length ''0123456789abcdef''" by simp
  then have "hex_digit d \<in> set ''0123456789abcdef''"
    unfolding hex_digit_def by (rule nth_mem)
  then show ?thesis by auto
qed

lemma FormatUint16_last: "FormatUint16 n \<noteq> [] \<and> last (FormatUint16 n) \<noteq> CHR ''*''"
  by (subst (1 2) FormatUint16.simps) (simp add: hex_digit_not_star)

lemma queryKey_not_pattern: "queryKey c q \<noteq> c' @ '':*''"
proof
  assume "queryKey c q = c' @ '':*''"
  then have "last (queryKey c q) = CHR ''*''" by simp
  moreover have "last (queryKey c q) = last (FormatUint16 (unat (Sum64 (snd (effective c q)))))"
    using FormatUint16_last by (simp add: queryKey_def split: prod.splits)
  ultimately show False using FormatUint16_last by metis
qed

lemma pruneCollection_keeps_entries:
  "refreshable_Get (snd (pruneCollection q c)) c' rq = refreshable_Get q c' rq"
  using queryKey_not_pattern [of c' rq c]
  by (auto simp: pruneCollection_def refreshable_Get_def redis_Del_def redis_Get_def
      split: option.splits)

text \<open>The two returns that keep a lock, for every input that reaches them.\<close>

lemma Set_leaves_lock:
  "up (store q) \<Longrightarrow> Lock (mu q) \<noteq> None \<Longrightarrow> c \<in> observedCollections q \<Longrightarrow>
     fst (refreshable_Set q c rq (NewReader p)) = Returns (p, None) \<and>
     writer (mu (snd (refreshable_Set q c rq (NewReader p))))"
  by (auto simp: refreshable_Set_def NewReader_def redis_Set_def Lock_def split: if_splits)

lemma RemoveObserver_leaves_lock:
  "RLock (wes_mu w) \<noteq> None \<Longrightarrow>
     readers (wes_mu (snd (RemoveObserver w k))) = Suc (readers (wes_mu w))"
  by (auto simp: RemoveObserver_def RLock_def split: if_splits)

section \<open>The ingestion endpoint\<close>

text \<open>
  The answers of the handler, branch by branch. The three refusals are written whatever
  the state of the channels; the status 200 is written once the event is sent.
\<close>

lemma handler_answers:
  "(Method r \<noteq> ''POST'' \<longrightarrow>
      handler D p r = (Returns \<lparr>status = 405, body = ''method not allowed'' @ [CHR 0x0A]\<rparr>, p)) \<and>
   (Method r = ''POST'' \<and> Header_Get (Header r) ''Content-Type'' \<noteq> ''application/json'' \<longrightarrow>
      handler D p r =
        (Returns \<lparr>status = 400, body = ''content type must be application/json'' @ [CHR 0x0A]\<rparr>,
         p)) \<and>
   (Method r = ''POST'' \<and> Header_Get (Header r) ''Content-Type'' = ''application/json'' \<and>
    D (Body r) = Inl err \<longrightarrow>
      handler D p r = (Returns \<lparr>status = 400, body = err @ [CHR 0x0A]\<rparr>, p)) \<and>
   (Method r = ''POST'' \<and> Header_Get (Header r) ''Content-Type'' = ''application/json'' \<and>
    D (Body r) = Inr we \<and> fluxInput_send p we = Some p' \<longrightarrow>
      handler D p r = (Returns \<lparr>status = 200, body = []\<rparr>, p')) \<and>
   (Method r = ''POST'' \<and> Header_Get (Header r) ''Content-Type'' = ''application/json'' \<and>
    D (Body r) = Inr we \<and> fluxInput_send p we = None \<longrightarrow>
      handler D p r = (Blocks, p))"
  by (simp add: handler_def http_Error_def)

lemma users_post_decodes:
  "Method users_post = ''POST'' \<and>
   Header_Get (Header users_post) ''Content-Type'' = ''application/json'' \<and>
   sample_Decode (Body users_post) = Inr users_event"
  by (simp add: users_post_def webhook_request_def Header_Get_def sample_Decode_def
      NewReader_def users_body_def)

lemma post_eq:
  "post (p, q) = (case fluxInput_send p users_event of None \<Rightarrow> (p, q) | Some p' \<Rightarrow> (p', q))"
  using users_post_decodes by (simp add: post_def handler_def split: option.splits)

lemma dispatcher_jammed_eq:
  "dispatcher_jammed =
     (NewPipeline\<lparr>dispatcher_stuck := True\<rparr>, snd (flush [users_event] after_two))"
  by (simp add: dispatcher_jammed_def post_then_tick_def post_eq fluxInput_send_def tick_def
      NewPipeline_def flush_after_two)

lemma outChan_full_eq:
  "outChan_full =
     (NewPipeline\<lparr>dispatcher_stuck := True,
        outChan := [[users_event], [users_event], [users_event], [users_event]]\<rparr>,
      snd (flush [users_event] after_two))"
  by (simp add: outChan_full_def dispatcher_jammed_eq post_then_tick_def post_eq
      fluxInput_send_def tick_def NewPipeline_def)

lemma pump_jammed_eq:
  "pump_jammed =
     (NewPipeline\<lparr>dispatcher_stuck := True,
        outChan := [[users_event], [users_event], [users_event], [users_event]],
        buf := [users_event], pump_stuck := True\<rparr>,
      snd (flush [users_event] after_two))"
  by (simp add: pump_jammed_def outChan_full_eq post_then_tick_def post_eq fluxInput_send_def
      tick_def NewPipeline_def)

lemma inChan_full_eq:
  "inChan_full =
     (NewPipeline\<lparr>dispatcher_stuck := True,
        outChan := [[users_event], [users_event], [users_event], [users_event]],
        buf := [users_event], pump_stuck := True,
        inChan := [users_event, users_event, users_event, users_event]\<rparr>,
      snd (flush [users_event] after_two))"
  by (simp add: inChan_full_def pump_jammed_eq post_eq fluxInput_send_def NewPipeline_def)

text \<open>
  Claim C8 fails on the code. After the two writes for \<^verbatim>\<open>users\<close>, the flush of the first
  notification for \<^verbatim>\<open>users\<close> leaves the dispatcher stuck in the eviction callback. The
  buffers of the next four notifications fill \<^verbatim>\<open>outChan\<close>, the one after them leaves the
  pump stuck in its send, and four more notifications, the first of them answered with
  status 200 like those before, fill \<^verbatim>\<open>inChan\<close>. The next notification, a POST with the
  right content type and a body that decodes, gets no answer, where the claim has it
  answered with status 200: the handler waits for ever in its send. A request with
  another method is still answered with status 405.
\<close>

theorem handler_never_answers:
  "dispatcher_stuck (fst dispatcher_jammed) \<and>
   length (outChan (fst outChan_full)) = 4 \<and>
   pump_stuck (fst pump_jammed) \<and>
   fst (handler sample_Decode (fst pump_jammed) users_post) = Returns \<lparr>status = 200, body = []\<rparr> \<and>
   length (inChan (fst inChan_full)) = 4 \<and>
   Method users_post = ''POST'' \<and>
   Header_Get (Header users_post) ''Content-Type'' = ''application/json'' \<and>
   sample_Decode (Body users_post) = Inr users_event \<and>
   fst (handler sample_Decode (fst inChan_full) users_post) = Blocks \<and>
   fst (handler sample_Decode (fst inChan_full)
     (webhook_request ''GET'' ''application/json'' users_body)) =
     Returns \<lparr>status = 405, body = ''method not allowed'' @ [CHR 0x0A]\<rparr>"
proof (intro conjI)
  show "dispatcher_stuck (fst dispatcher_jammed)"
    by (simp add: dispatcher_jammed_eq)
  show "length (outChan (fst outChan_full)) = 4"
    by (simp add: outChan_full_eq)
  show "pump_stuck (fst pump_jammed)"
    by (simp add: pump_jammed_eq)
  show "fst (handler sample_Decode (fst pump_jammed) users_post) = Returns \<lparr>status = 200, body = []\<rparr>"
    using users_post_decodes
    by (simp add: pump_jammed_eq handler_def fluxInput_send_def NewPipeline_def)
  show "length (inChan (fst inChan_full)) = 4"
    by (simp add: inChan_full_eq)
  show "Method users_post = ''POST''"
    and "Header_Get (Header users_post) ''Content-Type'' = ''application/json''"
    and "sample_Decode (Body users_post) = Inr users_event"
    using users_post_decodes by simp_all
  show "fst (handler sample_Decode (fst inChan_full) users_post) = Blocks"
    using users_post_decodes
    by (simp add: inChan_full_eq handler_def fluxInput_send_def NewPipeline_def)
  show "fst (handler sample_Decode (fst inChan_full)
     (webhook_request ''GET'' ''application/json'' users_body)) =
     Returns \<lparr>status = 405, body = ''method not allowed'' @ [CHR 0x0A]\<rparr>"
    by (simp add: handler_def webhook_request_def http_Error_def)
qed

section \<open>The request path: a store that fails\<close>

lemma users_path: "SplitN2 ''/items/users'' ''items/'' = Some (''/'', ''users'')"
  by (simp add: HasPrefix_def)

lemma Call_miss_store_down:
  assumes "Method r \<in> {''GET'', ''POST'', ''PATCH'', ''DELETE''}" and "url r = Some u"
    and "SplitN2 (Path u) ''items/'' = Some (pre, c)" and "cache d = RefreshableQueryCache"
    and "\<not> up (store q)" and "Do d (prepare d r u) = Inr resp" and "StatusCode resp = 200"
    and "RespBody resp = NewReader b"
  shows "Call d q r = (Returns (Inr (resp\<lparr>RespBody := NewReader []\<rparr>)), q)"
  using assms
  by (simp add: Call_def cache_Get_def cache_Set_def refreshable_Get_def redis_Get_def
      refreshable_Set_def redis_Set_def NewReader_def)

text \<open>Where the write succeeds, and with the no-op cache, the caller gets the origin's response.\<close>

lemma Call_miss_keeps_body:
  assumes "Method r \<in> {''GET'', ''POST'', ''PATCH'', ''DELETE''}" and "url r = Some u"
    and "SplitN2 (Path u) ''items/'' = Some (pre, c)" and "cache d = RefreshableQueryCache"
    and "refreshable_Get q c (effectiveQuery u) = Inl miss" and "up (store q)"
    and "Lock (mu q) \<noteq> None"
    and "c \<in> observedCollections q \<or> Lock (wes_mu (wes q)) \<noteq> None"
    and "Do d (prepare d r u) = Inr resp" and "StatusCode resp = 200"
    and "RespBody resp = NewReader b"
  shows "fst (Call d q r) = Returns (Inr resp)"
proof -
  have "fst (refreshable_Set q c (effectiveQuery u) (NewReader b)) = Returns (b, None)"
    using assms(6-8) by (rule refreshable_Set_returns)
  moreover have "resp\<lparr>RespBody := NewReader b\<rparr> = resp" using assms(11) by simp
  ultimately show ?thesis
    using assms
    by (cases "refreshable_Set q c (effectiveQuery u) (NewReader b)")
       (simp add: Call_def cache_Get_def cache_Set_def)
qed

lemma Call_noop_keeps_body:
  assumes "Method r \<in> {''GET'', ''POST'', ''PATCH'', ''DELETE''}" and "url r = Some u"
    and "SplitN2 (Path u) ''items/'' = Some (pre, c)" and "cache d = NoopQueryCache"
    and "Do d (prepare d r u) = Inr resp" and "StatusCode resp = 200"
    and "RespBody resp = NewReader b"
  shows "Call d q r = (Returns (Inr resp), q)"
proof -
  have "resp\<lparr>RespBody := NewReader b\<rparr> = resp" using assms(7) by simp
  then show ?thesis
    using assms
    by (simp add: Call_def cache_Get_def cache_Set_def noop_Get_def noop_Set_def NewReader_def)
qed

text \<open>
  Claim C4 fails on the code. Over a store whose commands fail, a GET that the origin
  answers with status 200 and the body \<^verbatim>\<open>fresh\<close> is answered to the caller with status 200
  and an empty body.
\<close>

theorem Call_store_failure_empties_body:
  "Do client0 (prepare client0 (users_request ''GET'') users_url) = Inr fresh_response \<and>
   StatusCode fresh_response = 200 \<and>
   RespBody fresh_response = NewReader ''fresh'' \<and>
   Call client0 cache_down (users_request ''GET'') =
     (Returns (Inr \<lparr>StatusCode = 200, RespHeader = Map.empty, RespBody = NewReader []\<rparr>),
      cache_down)"
proof -
  have "Call client0 cache_down (users_request ''GET'') =
     (Returns (Inr (fresh_response\<lparr>RespBody := NewReader []\<rparr>)), cache_down)"
    by (rule Call_miss_store_down [where u = users_url and pre = "''/''" and c = "''users''"
          and b = "''fresh''"])
       (simp_all add: users_request_def users_url_def HasPrefix_def client0_def cache_down_def
          NewRefreshableQueryCache_def store0_def origin_fresh_def fresh_response_def)
  then show ?thesis
    by (simp add: client0_def origin_fresh_def fresh_response_def)
qed

section \<open>The request path: methods\<close>

lemma Call_invalid_method:
  "Method r \<notin> {''GET'', ''POST'', ''PATCH'', ''DELETE''} \<Longrightarrow>
     Call d q r = (Returns (Inl InvalidMethod), q)"
  by (simp add: Call_def)

lemma Call_hit:
  assumes "Method r \<in> {''GET'', ''POST'', ''PATCH'', ''DELETE''}" and "url r = Some u"
    and "SplitN2 (Path u) ''items/'' = Some (pre, c)"
    and "cache_Get (cache d) q c (effectiveQuery u) = Inr b"
  shows "Call d q r =
     (Returns (Inr \<lparr>StatusCode = 200, RespHeader = Map.empty, RespBody = NewReader b\<rparr>), q)"
  using assms by (simp add: Call_def)

lemma Call_miss_stores:
  assumes "Method r \<in> {''GET'', ''POST'', ''PATCH'', ''DELETE''}" and "url r = Some u"
    and "SplitN2 (Path u) ''items/'' = Some (pre, c)" and "cache d = RefreshableQueryCache"
    and "refreshable_Get q c (effectiveQuery u) = Inl miss" and "up (store q)"
    and "Do d (prepare d r u) = Inr resp" and "StatusCode resp = 200"
    and "RespBody resp = NewReader b"
  shows "refreshable_Get (snd (Call d q r)) c (effectiveQuery u) = Inr b"
proof -
  have "snd (Call d q r) = snd (refreshable_Set q c (effectiveQuery u) (NewReader b))"
    using assms
    by (cases "refreshable_Set q c (effectiveQuery u) (NewReader b)")
       (auto simp: Call_def cache_Get_def cache_Set_def split: outcome.splits prod.splits)
  then show ?thesis using assms(6) by (simp add: Get_after_Set)
qed

lemma Call_no_url:
  "Method r \<in> {''GET'', ''POST'', ''PATCH'', ''DELETE''} \<Longrightarrow> url r = None \<Longrightarrow>
     Call d q r = (Returns (Inl UrlRequired), q)"
  by (simp add: Call_def)

lemma Call_no_items:
  "Method r \<in> {''GET'', ''POST'', ''PATCH'', ''DELETE''} \<Longrightarrow> url r = Some u \<Longrightarrow>
   SplitN2 (Path u) ''items/'' = None \<Longrightarrow>
     Call d q r = (Returns (Inl InvalidUrl), q)"
  by (simp add: Call_def)

text \<open>
  Claim C2, as amended. \<^verbatim>\<open>Call\<close> treats POST, PATCH and DELETE as it treats GET. It
  returns an error and leaves the cache as it was for a request whose method is none of
  the four (\<^verbatim>\<open>invalid method\<close>), whose URL is nil (\<^verbatim>\<open>url is required\<close>) or whose path has
  no \<^verbatim>\<open>items/\<close> in it (\<^verbatim>\<open>invalid url\<close>). For a request with one of the four methods, GET
  or not, a URL and a path with \<^verbatim>\<open>items/\<close> in it: when the cache holds an entry for the
  collection and the query of the request, the cached bytes are returned with status 200
  and the cache is left as it was, whatever the origin would answer; when the refreshable
  cache over a working store holds none and the origin answers with status 200 and a body
  that reads to its end, the body is stored, and \<^verbatim>\<open>Get\<close> reads it afterwards.
\<close>

theorem Call_caches_every_method:
  "(Method r \<notin> {''GET'', ''POST'', ''PATCH'', ''DELETE''} \<longrightarrow>
      Call d q r = (Returns (Inl InvalidMethod), q)) \<and>
   (Method r \<in> {''GET'', ''POST'', ''PATCH'', ''DELETE''} \<and> url r = None \<longrightarrow>
      Call d q r = (Returns (Inl UrlRequired), q)) \<and>
   (Method r \<in> {''GET'', ''POST'', ''PATCH'', ''DELETE''} \<and> url r = Some u \<and>
    SplitN2 (Path u) ''items/'' = None \<longrightarrow>
      Call d q r = (Returns (Inl InvalidUrl), q)) \<and>
   (Method r \<in> {''GET'', ''POST'', ''PATCH'', ''DELETE''} \<and> url r = Some u \<and>
    SplitN2 (Path u) ''items/'' = Some (pre, c) \<and>
    cache_Get (cache d) q c (effectiveQuery u) = Inr b \<longrightarrow>
      Call d q r =
        (Returns (Inr \<lparr>StatusCode = 200, RespHeader = Map.empty, RespBody = NewReader b\<rparr>), q)) \<and>
   (Method r \<in> {''GET'', ''POST'', ''PATCH'', ''DELETE''} \<and> url r = Some u \<and>
    SplitN2 (Path u) ''items/'' = Some (pre, c) \<and> cache d = RefreshableQueryCache \<and>
    refreshable_Get q c (effectiveQuery u) = Inl miss \<and> up (store q) \<and>
    Do d (prepare d r u) = Inr resp \<and> StatusCode resp = 200 \<and> RespBody resp = NewReader b' \<longrightarrow>
      refreshable_Get (snd (Call d q r)) c (effectiveQuery u) = Inr b')"
proof (intro conjI impI)
  assume "Method r \<notin> {''GET'', ''POST'', ''PATCH'', ''DELETE''}"
  then show "Call d q r = (Returns (Inl InvalidMethod), q)"
    by (rule Call_invalid_method)
next
  assume "Method r \<in> {''GET'', ''POST'', ''PATCH'', ''DELETE''} \<and> url r = None"
  then show "Call d q r = (Returns (Inl UrlRequired), q)"
    using Call_no_url by blast
next
  assume "Method r \<in> {''GET'', ''POST'', ''PATCH'', ''DELETE''} \<and> url r = Some u \<and>
    SplitN2 (Path u) ''items/'' = None"
  then show "Call d q r = (Returns (Inl InvalidUrl), q)"
    using Call_no_items by blast
next
  assume "Method r \<in> {''GET'', ''POST'', ''PATCH'', ''DELETE''} \<and> url r = Some u \<and>
    SplitN2 (Path u) ''items/'' = Some (pre, c) \<and>
    cache_Get (cache d) q c (effectiveQuery u) = Inr b"
  then show "Call d q r =
        (Returns (Inr \<lparr>StatusCode = 200, RespHeader = Map.empty, RespBody = NewReader b\<rparr>), q)"
    using Call_hit by blast
next
  assume "Method r \<in> {''GET'', ''POST'', ''PATCH'', ''DELETE''} \<and> url r = Some u \<and>
    SplitN2 (Path u) ''items/'' = Some (pre, c) \<and> cache d = RefreshableQueryCache \<and>
    refreshable_Get q c (effectiveQuery u) = Inl miss \<and> up (store q) \<and>
    Do d (prepare d r u) = Inr resp \<and> StatusCode resp = 200 \<and> RespBody resp = NewReader b'"
  then show "refreshable_Get (snd (Call d q r)) c (effectiveQuery u) = Inr b'"
    using Call_miss_stores [of r u pre c d q miss resp b'] by blast
qed

lemma cache_stale_hit: "refreshable_Get cache_stale ''users'' ''limit=1000'' = Inr ''stale''"
  using cache0_ready by (simp add: cache_stale_def Get_after_Set)

lemma cache0_miss: "refreshable_Get cache0 ''users'' ''limit=1000'' = Inl RedisNil"
  by (simp add: refreshable_Get_def redis_Get_def cache0_def NewRefreshableQueryCache_def
      store0_def)

lemma users_request_facts:
  "url (users_request m) = Some users_url \<and> Method (users_request m) = m \<and>
   SplitN2 (Path users_url) ''items/'' = Some (''/'', ''users'') \<and>
   effectiveQuery users_url = ''limit=1000'' \<and> cache client0 = RefreshableQueryCache \<and>
   Do client0 x = Inr fresh_response \<and> StatusCode fresh_response = 200 \<and>
   RespBody fresh_response = NewReader ''fresh''"
  by (simp add: users_request_def users_url_def HasPrefix_def effectiveQuery_def client0_def
      origin_fresh_def fresh_response_def)

theorem Call_caches_every_method_witness:
  "Call client0 cache0 (users_request ''PUT'') = (Returns (Inl InvalidMethod), cache0) \<and>
   Call client0 cache_stale ((users_request ''GET'')\<lparr>url := None\<rparr>) =
     (Returns (Inl UrlRequired), cache_stale) \<and>
   Call client0 cache_stale
     ((users_request ''GET'')\<lparr>url := Some (users_url\<lparr>Path := ''/users''\<rparr>)\<rparr>) =
     (Returns (Inl InvalidUrl), cache_stale) \<and>
   Call client0 cache_stale (users_request ''DELETE'') =
     (Returns (Inr \<lparr>StatusCode = 200, RespHeader = Map.empty, RespBody = NewReader ''stale''\<rparr>),
      cache_stale) \<and>
   refreshable_Get (snd (Call client0 cache0 (users_request ''PATCH''))) ''users'' ''limit=1000'' =
     Inr ''fresh''"
proof (intro conjI)
  show "Call client0 cache0 (users_request ''PUT'') = (Returns (Inl InvalidMethod), cache0)"
    using Call_caches_every_method [of "users_request ''PUT''" client0 cache0]
    by (simp add: users_request_def)
  show "Call client0 cache_stale ((users_request ''GET'')\<lparr>url := None\<rparr>) =
     (Returns (Inl UrlRequired), cache_stale)"
    using Call_caches_every_method [of "(users_request ''GET'')\<lparr>url := None\<rparr>" client0 cache_stale]
    by (simp add: users_request_def)
  show "Call client0 cache_stale
     ((users_request ''GET'')\<lparr>url := Some (users_url\<lparr>Path := ''/users''\<rparr>)\<rparr>) =
     (Returns (Inl InvalidUrl), cache_stale)"
    using Call_caches_every_method
      [of "(users_request ''GET'')\<lparr>url := Some (users_url\<lparr>Path := ''/users''\<rparr>)\<rparr>" client0
        cache_stale "users_url\<lparr>Path := ''/users''\<rparr>"]
    by (simp add: users_request_def users_url_def HasPrefix_def)
  show "Call client0 cache_stale (users_request ''DELETE'') =
     (Returns (Inr \<lparr>StatusCode = 200, RespHeader = Map.empty, RespBody = NewReader ''stale''\<rparr>),
      cache_stale)"
    using Call_caches_every_method [of "users_request ''DELETE''" client0 cache_stale users_url
        "''/''" "''users''" "''stale''"]
      users_request_facts [of "''DELETE''"] cache_stale_hit
    by (simp add: cache_Get_def)
  show "refreshable_Get (snd (Call client0 cache0 (users_request ''PATCH''))) ''users'' ''limit=1000'' =
     Inr ''fresh''"
    using Call_caches_every_method [of "users_request ''PATCH''" client0 cache0 users_url
        "''/''" "''users''" _ RedisNil fresh_response "''fresh''"]
      users_request_facts [of "''PATCH''"] cache0_miss cache0_ready
    by simp
qed

text \<open>
  Claim C2, as stated, fails: a POST is answered from the cache with the bytes
  \<^verbatim>\<open>stale\<close> while the origin answers \<^verbatim>\<open>fresh\<close>, and on an empty cache the origin's
  answer to a POST is stored.
\<close>

theorem Call_caches_every_method_counterexample:
  "Method (users_request ''POST'') \<noteq> ''GET'' \<and>
   Do client0 (prepare client0 (users_request ''POST'') users_url) = Inr fresh_response \<and>
   RespBody fresh_response = NewReader ''fresh'' \<and>
   Call client0 cache_stale (users_request ''POST'') =
     (Returns (Inr \<lparr>StatusCode = 200, RespHeader = Map.empty, RespBody = NewReader ''stale''\<rparr>),
      cache_stale) \<and>
   refreshable_Get cache0 ''users'' ''limit=1000'' = Inl RedisNil \<and>
   refreshable_Get (snd (Call client0 cache0 (users_request ''POST''))) ''users'' ''limit=1000'' =
     Inr ''fresh''"
proof (intro conjI)
  show "Method (users_request ''POST'') \<noteq> ''GET''" by (simp add: users_request_def)
  show "Do client0 (prepare client0 (users_request ''POST'') users_url) = Inr fresh_response"
    by (simp add: users_request_facts)
  show "RespBody fresh_response = NewReader ''fresh''" by (simp add: users_request_facts)
  show "Call client0 cache_stale (users_request ''POST'') =
     (Returns (Inr \<lparr>StatusCode = 200, RespHeader = Map.empty, RespBody = NewReader ''stale''\<rparr>),
      cache_stale)"
    by (rule Call_hit [where u = users_url and pre = "''/''" and c = "''users''"])
       (simp_all add: users_request_facts cache_Get_def cache_stale_hit)
  show "refreshable_Get cache0 ''users'' ''limit=1000'' = Inl RedisNil" by (rule cache0_miss)
  have "refreshable_Get (snd (Call client0 cache0 (users_request ''POST''))) ''users''
          (effectiveQuery users_url) = Inr ''fresh''"
    by (rule Call_miss_stores [where pre = "''/''" and miss = RedisNil and resp = fresh_response])
       (simp_all add: users_request_facts cache0_miss cache0_ready)
  then show "refreshable_Get (snd (Call client0 cache0 (users_request ''POST''))) ''users''
      ''limit=1000'' = Inr ''fresh''"
    by (simp add: users_request_facts)
qed

end
